theory Spec2Isabelle
  imports Main "HOL-Library.Word" "HOL-Library.List_Lexorder" "HOL-Library.Signed_Division"
begin

section \<open>The PostgreSQL key-value backend (lib/backend/pgbk/pgbk.go)\<close>

text \<open>
  The backend keeps one table, \<^verbatim>\<open>kv (key, value, expires, revision)\<close>, with
  \<^verbatim>\<open>key\<close> as primary key, and every operation of \<^verbatim>\<open>Backend\<close> is one SQL statement
  sent through the connection pool. The table is modelled as the list of its rows, each
  statement as a function on that list returning the number of affected rows (or the
  selected rows), and each Go method as the code around its statement: the error checks
  and the translation of "no row affected" into an error.

  What the environment decides is passed in explicitly (record \<open>env\<close>): the store's
  transaction time \<^verbatim>\<open>now()\<close>, the value the call of \<^verbatim>\<open>newRevision()\<close> returned, and
  the store or connection failure, if any, that the call meets.
\<close>

subsection \<open>Values\<close>

text \<open>
  A Go \<^verbatim>\<open>[]byte\<close>. The lexicographic order on lists (HOL-Library.List_Lexorder) over the
  unsigned order of bytes is the order of \<^verbatim>\<open>bytea\<close> in the store: byte by byte, a proper
  prefix first.
\<close>

type_synonym bytes = "8 word list"

text \<open>
  The value of a \<^verbatim>\<open>timestamptz\<close> column: whole microseconds since 2000-01-01 00:00:00
  UTC, the 64-bit integer PostgreSQL stores and the driver sends. The store's \<^verbatim>\<open>now()\<close>
  is counted in the same way.
\<close>

type_synonym timestamp = int

type_synonym uuid = "128 word"

datatype Location = UTC_Location | Local_Location | Fixed_Location string

text \<open>
  A Go \<^verbatim>\<open>time.Time\<close>: an instant, in nanoseconds since the zero time (January 1, year 1,
  00:00:00 UTC), and the location it is presented in.
\<close>

record Time =
  instant :: int
  location :: Location

definition zero_Time :: Time where
  "zero_Time = \<lparr>instant = 0, location = UTC_Location\<rparr>"

definition IsZero :: "Time \<Rightarrow> bool" where
  "IsZero t = (instant t = 0)"

definition UTC :: "Time \<Rightarrow> Time" where
  "UTC t = t\<lparr>location := UTC_Location\<rparr>"

text \<open>Seconds from the zero time to 1970-01-01, and microseconds from 1970 to 2000.\<close>

definition unixToInternal :: int where
  "unixToInternal = 62135596800"

definition microsecFromUnixEpochToY2K :: int where
  "microsecFromUnixEpochToY2K = 946684800 * 1000000"

text \<open>\<^verbatim>\<open>t.Unix()\<close>, \<^verbatim>\<open>t.Nanosecond()\<close> (always in \<open>[0, 999999999]\<close>) and \<^verbatim>\<open>time.Unix(sec, nsec)\<close>.\<close>

definition Unix :: "Time \<Rightarrow> int" where
  "Unix t = instant t div 1000000000 - unixToInternal"

definition Nanosecond :: "Time \<Rightarrow> int" where
  "Nanosecond t = instant t mod 1000000000"

definition time_Unix :: "int \<Rightarrow> int \<Rightarrow> Time" where
  "time_Unix sec nsec =
     \<lparr>instant = (sec + unixToInternal) * 1000000000 + nsec, location = Local_Location\<rparr>"

text \<open>\<^verbatim>\<open>t.Truncate(time.Microsecond)\<close>: the nanoseconds below the microsecond are dropped.\<close>

definition Truncate_Microsecond :: "Time \<Rightarrow> Time" where
  "Truncate_Microsecond t = t\<lparr>instant := instant t - instant t mod 1000\<rparr>"

text \<open>
  The driver's binary encoding of a time for a \<^verbatim>\<open>timestamptz\<close> parameter, in \<^verbatim>\<open>int64\<close>
  arithmetic (which wraps around):
  \<^verbatim>\<open>microsecSinceUnixEpoch := t.Unix()*1000000 + int64(t.Nanosecond())/1000;
  microsecSinceY2K = microsecSinceUnixEpoch - microsecFromUnixEpochToY2K\<close>.
  The nanoseconds below the microsecond are lost.
\<close>

definition microsecSinceY2K :: "Time \<Rightarrow> timestamp" where
  "microsecSinceY2K t =
     sint (word_of_int (Unix t) * 1000000 + word_of_int (Nanosecond t div 1000)
           - word_of_int microsecFromUnixEpochToY2K :: 64 word)"

text \<open>
  The driver's decoding of a column value:
  \<^verbatim>\<open>time.Unix(microsecFromUnixEpochToY2K/1000000 + microsecSinceY2K/1000000,
  (microsecFromUnixEpochToY2K%1000000*1000) + (microsecSinceY2K%1000000*1000))\<close>,
  with Go's division and remainder, which truncate towards zero.
\<close>

definition timestamptz_Time :: "timestamp \<Rightarrow> Time" where
  "timestamptz_Time ts =
     time_Unix (microsecFromUnixEpochToY2K sdiv 1000000 + ts sdiv 1000000)
       (microsecFromUnixEpochToY2K smod 1000000 * 1000 + ts smod 1000000 * 1000)"

text \<open>
  The range of a \<^verbatim>\<open>timestamptz\<close> column, from 4713 BC up to the year 294277 excluded
  (\<^verbatim>\<open>MIN_TIMESTAMP\<close> and \<^verbatim>\<open>END_TIMESTAMP\<close> of PostgreSQL); a time is in range when its
  microseconds since 2000 are. The store rejects a value outside of it.
\<close>

definition MIN_TIMESTAMP :: int where
  "MIN_TIMESTAMP = - 211813488000000000"

definition END_TIMESTAMP :: int where
  "END_TIMESTAMP = 9223371331200000000"

definition in_timestamptz_range :: "Time \<Rightarrow> bool" where
  "in_timestamptz_range t =
     (let us = instant t div 1000 - unixToInternal * 1000000 - microsecFromUnixEpochToY2K
      in MIN_TIMESTAMP \<le> us \<and> us < END_TIMESTAMP)"

text \<open>
  \<^verbatim>\<open>zeronull.Timestamptz\<close> of the driver: the zero time, and only the zero time, is written
  as NULL, and NULL is read as the zero time; any other time is encoded as above, and a
  column value is read back in the local location.
\<close>

definition Timestamptz_Value :: "Time \<Rightarrow> timestamp option" where
  "Timestamptz_Value t = (if IsZero t then None else Some (microsecSinceY2K t))"

definition Timestamptz_Scan :: "timestamp option \<Rightarrow> Time" where
  "Timestamptz_Scan c = (case c of None \<Rightarrow> zero_Time | Some ts \<Rightarrow> timestamptz_Time ts)"

text \<open>
  Modelled from the spec: \<^verbatim>\<open>backend.Item\<close> is declared in package lib/backend, not in pgbk.go; the
  spec gives it as \<^verbatim>\<open>{Key: bytes, Value: bytes, Expires: timestamp|none}\<close>, and these are
  the three fields pgbk.go reads and writes.
\<close>

record Item =
  Key :: bytes
  Value :: bytes
  Expires :: Time

text \<open>
  Modelled from the spec: \<^verbatim>\<open>backend.Lease\<close> and the helper \<^verbatim>\<open>newLease\<close> are declared
  outside pgbk.go; the spec gives the lease returned by a successful write as
  \<^verbatim>\<open>Lease{Key, Expires}\<close>. pgbk.go itself reads \<^verbatim>\<open>lease.Key\<close> only.
\<close>

record Lease =
  LeaseKey :: bytes
  LeaseExpires :: Time

definition newLease :: "Item \<Rightarrow> Lease" where
  "newLease i = \<lparr>LeaseKey = Key i, LeaseExpires = Expires i\<rparr>"

record GetResult =
  Items :: "Item list"

text \<open>The kinds of \<^verbatim>\<open>trace\<close> errors the backend returns; \<open>StoreError\<close> is a wrapped
  error of the store or the connection.\<close>

datatype error = AlreadyExists | NotFound | CompareFailed | BadParameter | StoreError string

subsection \<open>The table and its statements\<close>

record kv_row =
  kv_key :: bytes
  kv_value :: bytes
  kv_expires :: "timestamp option"
  kv_revision :: uuid

type_synonym kv_table = "kv_row list"

text \<open>\<^verbatim>\<open>CONSTRAINT kv_pkey PRIMARY KEY (key)\<close>: at most one row per key.\<close>

definition kv_pkey :: "kv_table \<Rightarrow> bool" where
  "kv_pkey tbl = distinct (map kv_key tbl)"

definition kv_lookup :: "bytes \<Rightarrow> kv_table \<Rightarrow> kv_row option" where
  "kv_lookup k tbl = find (\<lambda>r. kv_key r = k) tbl"

record env =
  fault :: "string option"
  now :: timestamp
  newRevision :: uuid

text \<open>\<^verbatim>\<open>kv.expires IS NULL OR kv.expires > now()\<close>\<close>

definition live :: "timestamp \<Rightarrow> kv_row \<Rightarrow> bool" where
  "live t r = (case kv_expires r of None \<Rightarrow> True | Some e \<Rightarrow> t < e)"

text \<open>\<^verbatim>\<open>kv.expires IS NOT NULL AND kv.expires <= now()\<close>\<close>

definition expired :: "timestamp \<Rightarrow> kv_row \<Rightarrow> bool" where
  "expired t r = (case kv_expires r of None \<Rightarrow> False | Some e \<Rightarrow> e \<le> t)"

text \<open>\<^verbatim>\<open>kv.key BETWEEN $1 AND $2\<close>\<close>

definition key_between :: "bytes \<Rightarrow> bytes \<Rightarrow> kv_row \<Rightarrow> bool" where
  "key_between startKey endKey r = (startKey \<le> kv_key r \<and> kv_key r \<le> endKey)"

text \<open>
  \<^verbatim>\<open>INSERT INTO kv ... VALUES new ON CONFLICT (key) DO UPDATE SET value = excluded.value,
  expires = excluded.expires, revision = excluded.revision WHERE cond\<close>: without a
  conflicting row the new row is inserted; a conflicting row is replaced when it satisfies
  \<open>cond\<close> and left alone otherwise. The result carries the number of rows affected.
\<close>

definition sql_insert_on_conflict_update ::
  "(kv_row \<Rightarrow> bool) \<Rightarrow> kv_row \<Rightarrow> kv_table \<Rightarrow> nat \<times> kv_table" where
  "sql_insert_on_conflict_update cond new tbl =
     (if \<exists>r \<in> set tbl. kv_key r = kv_key new
      then (length (filter (\<lambda>r. kv_key r = kv_key new \<and> cond r) tbl),
            map (\<lambda>r. if kv_key r = kv_key new \<and> cond r then new else r) tbl)
      else (1, tbl @ [new]))"

text \<open>\<^verbatim>\<open>UPDATE kv SET ... WHERE cond\<close>\<close>

definition sql_update ::
  "(kv_row \<Rightarrow> kv_row) \<Rightarrow> (kv_row \<Rightarrow> bool) \<Rightarrow> kv_table \<Rightarrow> nat \<times> kv_table" where
  "sql_update set_cols cond tbl =
     (length (filter cond tbl), map (\<lambda>r. if cond r then set_cols r else r) tbl)"

text \<open>\<^verbatim>\<open>DELETE FROM kv WHERE cond\<close>\<close>

definition sql_delete :: "(kv_row \<Rightarrow> bool) \<Rightarrow> kv_table \<Rightarrow> nat \<times> kv_table" where
  "sql_delete cond tbl = (length (filter cond tbl), filter (\<lambda>r. \<not> cond r) tbl)"

text \<open>\<^verbatim>\<open>SELECT ... FROM kv WHERE cond\<close>\<close>

definition sql_select :: "(kv_row \<Rightarrow> bool) \<Rightarrow> kv_table \<Rightarrow> kv_row list" where
  "sql_select cond tbl = filter cond tbl"

text \<open>\<^verbatim>\<open>SELECT ... FROM kv WHERE cond ORDER BY kv.key LIMIT n\<close>\<close>

definition sql_select_order_limit ::
  "(kv_row \<Rightarrow> bool) \<Rightarrow> int \<Rightarrow> kv_table \<Rightarrow> kv_row list" where
  "sql_select_order_limit cond n tbl = take (nat n) (sort_key kv_key (filter cond tbl))"

subsection \<open>The connection pool\<close>

text \<open>
  \<^verbatim>\<open>pool.Exec\<close>: the statement runs in a transaction of its own; when the call meets a
  failure the transaction does not commit and the error is returned.
\<close>

definition pool_Exec ::
  "env \<Rightarrow> (kv_table \<Rightarrow> nat \<times> kv_table) \<Rightarrow> kv_table \<Rightarrow> (string + nat) \<times> kv_table" where
  "pool_Exec e stmt tbl =
     (case fault e of
        Some err \<Rightarrow> (Inl err, tbl)
      | None \<Rightarrow> (case stmt tbl of (n, tbl') \<Rightarrow> (Inr n, tbl')))"

text \<open>
  \<^verbatim>\<open>pool.SendBatch\<close> of \<^verbatim>\<open>SET transaction_read_only TO on\<close> followed by one query: the
  batch is an implicit transaction, read-only from its first statement on, so the query is
  evaluated and the table stays as it is.
\<close>

definition pool_SendBatch_read_only ::
  "env \<Rightarrow> (kv_table \<Rightarrow> 'a) \<Rightarrow> kv_table \<Rightarrow> (string + 'a) \<times> kv_table" where
  "pool_SendBatch_read_only e query tbl =
     (case fault e of
        Some err \<Rightarrow> (Inl err, tbl)
      | None \<Rightarrow> (Inr (query tbl), tbl))"

text \<open>
  Modelled from the spec: \<^verbatim>\<open>pgcommon.Retry\<close> and \<^verbatim>\<open>pgcommon.RetryIdempotent\<close> live in
  package pgbk/common, not in pgbk.go. By the spec they run the closure again on a transient failure and
  surface an error only when the retries are exhausted; the statements are written so
  that a retry is safe. They return what the last run of the closure returned; the
  \<open>fault\<close> of the environment is the failure that run meets, if any.
\<close>

definition Retry :: "(kv_table \<Rightarrow> 'a \<times> kv_table) \<Rightarrow> kv_table \<Rightarrow> 'a \<times> kv_table" where
  "Retry f tbl = f tbl"

definition RetryIdempotent :: "(kv_table \<Rightarrow> 'a \<times> kv_table) \<Rightarrow> kv_table \<Rightarrow> 'a \<times> kv_table" where
  "RetryIdempotent f tbl = f tbl"

text \<open>
  The closure shared by Create, CompareAndSwap, Update, Delete and KeepAlive:
  \<^verbatim>\<open>tag, err := b.pool.Exec(...); if err != nil { return false, trace.Wrap(err) };
  return tag.RowsAffected() > 0, nil\<close>
\<close>

definition exec_rows_affected ::
  "env \<Rightarrow> (kv_table \<Rightarrow> nat \<times> kv_table) \<Rightarrow> kv_table \<Rightarrow> (error + bool) \<times> kv_table" where
  "exec_rows_affected e stmt tbl =
     (case pool_Exec e stmt tbl of
        (Inl err, tbl') \<Rightarrow> (Inl (StoreError err), tbl')
      | (Inr n, tbl') \<Rightarrow> (Inr (0 < n), tbl'))"

subsection \<open>The operations of the backend\<close>

definition item_row :: "Item \<Rightarrow> uuid \<Rightarrow> kv_row" where
  "item_row i revision =
     \<lparr>kv_key = Key i, kv_value = Value i,
      kv_expires = Timestamptz_Value (UTC (Expires i)), kv_revision = revision\<rparr>"

definition Create :: "env \<Rightarrow> Item \<Rightarrow> kv_table \<Rightarrow> (error + Lease) \<times> kv_table" where
  "Create e i tbl =
     (let revision = newRevision e in
      case Retry (exec_rows_affected e
             (sql_insert_on_conflict_update (expired (now e)) (item_row i revision))) tbl of
        (Inl err, tbl') \<Rightarrow> (Inl err, tbl')
      | (Inr created, tbl') \<Rightarrow>
          if \<not> created then (Inl AlreadyExists, tbl')
          else (Inr (newLease i), tbl'))"

definition Put :: "env \<Rightarrow> Item \<Rightarrow> kv_table \<Rightarrow> (error + Lease) \<times> kv_table" where
  "Put e i tbl =
     (let revision = newRevision e in
      case Retry (\<lambda>tbl.
             case pool_Exec e
                    (sql_insert_on_conflict_update (\<lambda>r. True) (item_row i revision)) tbl of
               (Inl err, tbl') \<Rightarrow> (Inl (StoreError err), tbl')
             | (Inr n, tbl') \<Rightarrow> (Inr (), tbl')) tbl of
        (Inl err, tbl') \<Rightarrow> (Inl err, tbl')
      | (Inr u, tbl') \<Rightarrow> (Inr (newLease i), tbl'))"

definition CompareAndSwap ::
  "env \<Rightarrow> Item \<Rightarrow> Item \<Rightarrow> kv_table \<Rightarrow> (error + Lease) \<times> kv_table" where
  "CompareAndSwap e expected replaceWith tbl =
     (if Key expected \<noteq> Key replaceWith then (Inl BadParameter, tbl)
      else
        let revision = newRevision e in
        case Retry (exec_rows_affected e
               (sql_update
                  (\<lambda>r. r\<lparr>kv_value := Value replaceWith,
                         kv_expires := Timestamptz_Value (UTC (Expires replaceWith)),
                         kv_revision := revision\<rparr>)
                  (\<lambda>r. kv_key r = Key replaceWith \<and> kv_value r = Value expected
                       \<and> live (now e) r))) tbl of
          (Inl err, tbl') \<Rightarrow> (Inl err, tbl')
        | (Inr swapped, tbl') \<Rightarrow>
            if \<not> swapped then (Inl CompareFailed, tbl')
            else (Inr (newLease replaceWith), tbl'))"

definition Update :: "env \<Rightarrow> Item \<Rightarrow> kv_table \<Rightarrow> (error + Lease) \<times> kv_table" where
  "Update e i tbl =
     (let revision = newRevision e in
      case Retry (exec_rows_affected e
             (sql_update
                (\<lambda>r. r\<lparr>kv_value := Value i,
                       kv_expires := Timestamptz_Value (UTC (Expires i)),
                       kv_revision := revision\<rparr>)
                (\<lambda>r. kv_key r = Key i \<and> live (now e) r))) tbl of
        (Inl err, tbl') \<Rightarrow> (Inl err, tbl')
      | (Inr updated, tbl') \<Rightarrow>
          if \<not> updated then (Inl NotFound, tbl')
          else (Inr (newLease i), tbl'))"

text \<open>
  The row function of Get and GetRange: \<^verbatim>\<open>row.Scan(&value, &expires, &revision)\<close>, then
  an Item of key, value and \<^verbatim>\<open>time.Time(expires).UTC()\<close>; the scanned revision is dropped
  (\<^verbatim>\<open>// revision isn't supported in backend.Item yet\<close>).
\<close>

definition scan_item :: "bytes \<Rightarrow> kv_row \<Rightarrow> Item" where
  "scan_item k r =
     \<lparr>Key = k, Value = kv_value r, Expires = UTC (Timestamptz_Scan (kv_expires r))\<rparr>"

text \<open>\<^verbatim>\<open>QueryRow\<close>: the first row of the result; \<^verbatim>\<open>pgx.ErrNoRows\<close> leaves the item nil.\<close>

definition QueryRow :: "kv_row list \<Rightarrow> kv_row option" where
  "QueryRow rows = (case rows of [] \<Rightarrow> None | r # rest \<Rightarrow> Some r)"

definition Get :: "env \<Rightarrow> bytes \<Rightarrow> kv_table \<Rightarrow> (error + Item) \<times> kv_table" where
  "Get e k tbl =
     (case RetryIdempotent (\<lambda>tbl.
             case pool_SendBatch_read_only e
                    (\<lambda>tbl. QueryRow (sql_select (\<lambda>r. kv_key r = k \<and> live (now e) r) tbl))
                    tbl of
               (Inl err, tbl') \<Rightarrow> (Inl (StoreError err), tbl')
             | (Inr row, tbl') \<Rightarrow> (Inr (map_option (scan_item k) row), tbl')) tbl of
        (Inl err, tbl') \<Rightarrow> (Inl err, tbl')
      | (Inr None, tbl') \<Rightarrow> (Inl NotFound, tbl')
      | (Inr (Some item), tbl') \<Rightarrow> (Inr item, tbl'))"

text \<open>
  \<^verbatim>\<open>backend.DefaultRangeLimit\<close> is a constant of package lib/backend: it is the
  argument \<open>DefaultRangeLimit\<close> of the model.
\<close>

definition GetRange ::
  "int \<Rightarrow> env \<Rightarrow> bytes \<Rightarrow> bytes \<Rightarrow> int \<Rightarrow> kv_table \<Rightarrow> (error + GetResult) \<times> kv_table" where
  "GetRange DefaultRangeLimit e startKey endKey limit0 tbl =
     (let limit = (if limit0 \<le> 0 then DefaultRangeLimit else limit0) in
      case RetryIdempotent (\<lambda>tbl.
             case pool_SendBatch_read_only e
                    (sql_select_order_limit
                       (\<lambda>r. key_between startKey endKey r \<and> live (now e) r) limit)
                    tbl of
               (Inl err, tbl') \<Rightarrow> (Inl (StoreError err), tbl')
             | (Inr rows, tbl') \<Rightarrow> (Inr (map (\<lambda>r. scan_item (kv_key r) r) rows), tbl')) tbl of
        (Inl err, tbl') \<Rightarrow> (Inl err, tbl')
      | (Inr items, tbl') \<Rightarrow> (Inr \<lparr>Items = items\<rparr>, tbl'))"

definition Delete :: "env \<Rightarrow> bytes \<Rightarrow> kv_table \<Rightarrow> error option \<times> kv_table" where
  "Delete e k tbl =
     (case Retry (exec_rows_affected e
             (sql_delete (\<lambda>r. kv_key r = k \<and> live (now e) r))) tbl of
        (Inl err, tbl') \<Rightarrow> (Some err, tbl')
      | (Inr deleted, tbl') \<Rightarrow>
          if \<not> deleted then (Some NotFound, tbl') else (None, tbl'))"

definition DeleteRange :: "env \<Rightarrow> bytes \<Rightarrow> bytes \<Rightarrow> kv_table \<Rightarrow> error option \<times> kv_table" where
  "DeleteRange e startKey endKey tbl =
     (case Retry (\<lambda>tbl.
             case pool_Exec e (sql_delete (key_between startKey endKey)) tbl of
               (Inl err, tbl') \<Rightarrow> (Inl (StoreError err), tbl')
             | (Inr n, tbl') \<Rightarrow> (Inr (), tbl')) tbl of
        (Inl err, tbl') \<Rightarrow> (Some err, tbl')
      | (Inr u, tbl') \<Rightarrow> (None, tbl'))"

definition KeepAlive :: "env \<Rightarrow> Lease \<Rightarrow> Time \<Rightarrow> kv_table \<Rightarrow> error option \<times> kv_table" where
  "KeepAlive e lease expires tbl =
     (let revision = newRevision e in
      case Retry (exec_rows_affected e
             (sql_update
                (\<lambda>r. r\<lparr>kv_expires := Timestamptz_Value (UTC expires),
                       kv_revision := revision\<rparr>)
                (\<lambda>r. kv_key r = LeaseKey lease \<and> live (now e) r))) tbl of
        (Inl err, tbl') \<Rightarrow> (Some err, tbl')
      | (Inr updated, tbl') \<Rightarrow>
          if \<not> updated then (Some NotFound, tbl') else (None, tbl'))"

subsection \<open>Reading the table\<close>

text \<open>A live row exists at key \<open>k\<close> at the store's time \<open>t\<close>.\<close>

definition live_at :: "timestamp \<Rightarrow> bytes \<Rightarrow> kv_table \<Rightarrow> bool" where
  "live_at t k tbl = (\<exists>r \<in> set tbl. kv_key r = k \<and> live t r)"

text \<open>A live row with value \<open>v\<close> exists at key \<open>k\<close> at the store's time \<open>t\<close>.\<close>

definition live_value_at :: "timestamp \<Rightarrow> bytes \<Rightarrow> bytes \<Rightarrow> kv_table \<Rightarrow> bool" where
  "live_value_at t k v tbl = (\<exists>r \<in> set tbl. kv_key r = k \<and> kv_value r = v \<and> live t r)"

subsection \<open>Revisions\<close>




subsection \<open>Configuration (Config.CheckAndSetDefaults)\<close>

text \<open>
  \<^verbatim>\<open>AuthMode\<close> is a string type; \<^verbatim>\<open>types.Duration\<close> is an \<^verbatim>\<open>int64\<close> of nanoseconds and
  the batch sizes are Go \<^verbatim>\<open>int\<close>s. The code only compares them with zero and assigns
  constants to them, so they are modelled as integers.
\<close>

definition StaticAuth :: string where
  "StaticAuth = ''''"

definition AzureADAuth :: string where
  "AzureADAuth = ''azure''"

definition AuthMode_Check :: "string \<Rightarrow> error option" where
  "AuthMode_Check a = (if a = StaticAuth \<or> a = AzureADAuth then None else Some BadParameter)"

record Config =
  ConnString :: string
  AuthMode :: string
  ChangeFeedPollInterval :: int
  ChangeFeedBatchSize :: int
  DisableExpiry :: bool
  ExpiryInterval :: int
  ExpiryBatchSize :: int

definition Second :: int where
  "Second = 1000000000"

definition defaultChangeFeedBatchSize :: int where
  "defaultChangeFeedBatchSize = 1000"

definition defaultExpiryBatchSize :: int where
  "defaultExpiryBatchSize = 1000"

definition defaultExpiryInterval :: int where
  "defaultExpiryInterval = 30 * Second"

text \<open>
  \<^verbatim>\<open>defaultChangeFeedInterval = backend.DefaultPollStreamPeriod\<close>, a constant of package
  lib/backend: it is the argument \<open>defaultChangeFeedInterval\<close> of the model. The method
  works on a pointer: the model returns the error, if any, and the configuration as the
  method leaves it, so a field set before a later check fails stays set.
\<close>

definition CheckAndSetDefaults :: "int \<Rightarrow> Config \<Rightarrow> error option \<times> Config" where
  "CheckAndSetDefaults defaultChangeFeedInterval c0 =
     (case AuthMode_Check (AuthMode c0) of
        Some err \<Rightarrow> (Some err, c0)
      | None \<Rightarrow>
          if ChangeFeedPollInterval c0 < 0 then (Some BadParameter, c0)
          else
            let c1 = (if ChangeFeedPollInterval c0 = 0
                      then c0\<lparr>ChangeFeedPollInterval := defaultChangeFeedInterval\<rparr> else c0)
            in if ChangeFeedBatchSize c1 < 0 then (Some BadParameter, c1)
            else
              let c2 = (if ChangeFeedBatchSize c1 = 0
                        then c1\<lparr>ChangeFeedBatchSize := defaultChangeFeedBatchSize\<rparr> else c1)
              in if ExpiryInterval c2 < 0 then (Some BadParameter, c2)
              else
                let c3 = (if ExpiryInterval c2 = 0
                          then c2\<lparr>ExpiryInterval := defaultExpiryInterval\<rparr> else c2)
                in if ExpiryBatchSize c3 < 0 then (Some BadParameter, c3)
                else
                  let c4 = (if ExpiryBatchSize c3 = 0
                            then c3\<lparr>ExpiryBatchSize := defaultExpiryBatchSize\<rparr> else c3)
                  in (None, c4))"

subsection \<open>Shutdown (Backend.Close)\<close>

text \<open>
  The part of the backend that Close works on: the root context, the wait group of the
  background loops, the watch buffer and the pool. Every step of the teardown is logged
  with the number of background loops still running when it completed.
\<close>

datatype teardown_step = CancelContext | WaitLoops | CloseBuffer | ClosePool

record Backend =
  ctx_cancelled :: bool
  wg :: nat
  buf_closed :: bool
  pool_closed :: bool
  teardown :: "(teardown_step \<times> nat) list"

definition cancel :: "Backend \<Rightarrow> Backend" where
  "cancel b = b\<lparr>ctx_cancelled := True, teardown := teardown b @ [(CancelContext, wg b)]\<rparr>"

text \<open>
  Modelled from the spec: the background loops (\<^verbatim>\<open>backgroundExpiry\<close>,
  \<^verbatim>\<open>backgroundChangeFeed\<close>) are declared outside pgbk.go; by the spec each runs until the
  owning context is cancelled and then exits, which is when its deferred
  \<^verbatim>\<open>b.wg.Done()\<close> runs. So \<^verbatim>\<open>b.wg.Wait()\<close> returns, with no loop left, when no loop is
  running or the context is cancelled, and otherwise does not return (\<open>None\<close>).
\<close>

definition wg_Wait :: "Backend \<Rightarrow> Backend option" where
  "wg_Wait b =
     (if wg b = 0 \<or> ctx_cancelled b
      then Some (b\<lparr>wg := 0, teardown := teardown b @ [(WaitLoops, 0)]\<rparr>)
      else None)"

definition buf_Close :: "Backend \<Rightarrow> Backend" where
  "buf_Close b = b\<lparr>buf_closed := True, teardown := teardown b @ [(CloseBuffer, wg b)]\<rparr>"

definition pool_Close :: "Backend \<Rightarrow> Backend" where
  "pool_Close b = b\<lparr>pool_closed := True, teardown := teardown b @ [(ClosePool, wg b)]\<rparr>"

text \<open>The result is \<open>None\<close> when Close does not return.\<close>

definition Close :: "Backend \<Rightarrow> (error option \<times> Backend) option" where
  "Close b =
     (let b1 = cancel b in
      case wg_Wait b1 of
        None \<Rightarrow> None
      | Some b2 \<Rightarrow>
          let b3 = buf_Close b2;
              b4 = pool_Close b3
          in Some (None, b4))"

subsection \<open>Example data\<close>

text \<open>
  A table of three rows at the store's time 10 (microseconds since 2000): key \<open>[1]\<close>
  never expires, key \<open>[2]\<close> expired at 5 and has not been swept, key \<open>[3]\<close> expires at
  20. The time of an example item is given in nanoseconds since the zero time; the year
  2000 begins at 63082281600000000000.
\<close>

abbreviation ex_env :: env where
  "ex_env \<equiv> \<lparr>fault = None, now = 10, newRevision = 7\<rparr>"

abbreviation ex_tbl :: kv_table where
  "ex_tbl \<equiv>
     [\<lparr>kv_key = [1], kv_value = [9], kv_expires = None, kv_revision = 1\<rparr>,
      \<lparr>kv_key = [2], kv_value = [8], kv_expires = Some 5, kv_revision = 2\<rparr>,
      \<lparr>kv_key = [3], kv_value = [7], kv_expires = Some 20, kv_revision = 3\<rparr>]"

abbreviation ex_item :: "bytes \<Rightarrow> timestamp \<Rightarrow> Item" where
  "ex_item k t \<equiv> \<lparr>Key = k, Value = [4], Expires = \<lparr>instant = t, location = Local_Location\<rparr>\<rparr>"

text \<open>A configuration with an unknown authentication mode and no negative number.\<close>

abbreviation ex_cfg_ldap :: Config where
  "ex_cfg_ldap \<equiv>
     \<lparr>ConnString = ''postgres://db'', AuthMode = ''ldap'', ChangeFeedPollInterval = 5,
      ChangeFeedBatchSize = 0, DisableExpiry = False, ExpiryInterval = 5,
      ExpiryBatchSize = 5\<rparr>"

section \<open>Lemmas on the table and its statements\<close>

lemma expired_iff_not_live: "expired t r = (\<not> live t r)"
  by (auto simp: expired_def live_def split: option.splits)

lemma kv_lookup_Nil [simp]: "kv_lookup k [] = None"
  by (simp add: kv_lookup_def)

lemma kv_lookup_Cons [simp]:
  "kv_lookup k (r # tbl) = (if kv_key r = k then Some r else kv_lookup k tbl)"
  by (simp add: kv_lookup_def)

lemma kv_lookup_None_iff: "kv_lookup k tbl = None \<longleftrightarrow> (\<forall>r \<in> set tbl. kv_key r \<noteq> k)"
  by (induction tbl) auto

lemma kv_pkey_Cons: "kv_pkey (a # tbl) \<longleftrightarrow> (\<forall>r \<in> set tbl. kv_key r \<noteq> kv_key a) \<and> kv_pkey tbl"
  by (auto simp: kv_pkey_def image_iff)

lemma kv_lookup_SomeD: "kv_lookup k tbl = Some r \<Longrightarrow> r \<in> set tbl \<and> kv_key r = k"
  by (induction tbl) (auto split: if_splits)

lemma kv_lookup_mem: "kv_pkey tbl \<Longrightarrow> r \<in> set tbl \<Longrightarrow> kv_lookup (kv_key r) tbl = Some r"
  by (induction tbl) (auto simp: kv_pkey_def)

lemma kv_lookup_append:
  "kv_lookup k (tbl @ tbl') = (case kv_lookup k tbl of Some r \<Rightarrow> Some r | None \<Rightarrow> kv_lookup k tbl')"
  by (induction tbl) auto

lemma kv_lookup_map:
  "(\<And>r. r \<in> set tbl \<Longrightarrow> kv_key (f r) = kv_key r) \<Longrightarrow>
   kv_lookup k (map f tbl) = map_option f (kv_lookup k tbl)"
  by (induction tbl) auto

lemma kv_pkey_map:
  "(\<And>r. r \<in> set tbl \<Longrightarrow> kv_key (f r) = kv_key r) \<Longrightarrow> kv_pkey (map f tbl) = kv_pkey tbl"
proof -
  assume "\<And>r. r \<in> set tbl \<Longrightarrow> kv_key (f r) = kv_key r"
  then have "map kv_key (map f tbl) = map kv_key tbl" by simp
  then show ?thesis by (simp only: kv_pkey_def)
qed

lemma kv_lookup_filter:
  "kv_pkey tbl \<Longrightarrow>
   kv_lookup k (filter p tbl) =
     (case kv_lookup k tbl of None \<Rightarrow> None | Some r \<Rightarrow> if p r then Some r else None)"
proof (induction tbl)
  case Nil
  then show ?case by simp
next
  case (Cons a tbl)
  then have pk: "kv_pkey tbl" and fresh: "\<forall>r \<in> set tbl. kv_key r \<noteq> kv_key a"
    by (simp_all add: kv_pkey_Cons)
  have none: "kv_lookup (kv_key a) (filter p tbl) = None"
    using fresh by (auto simp: kv_lookup_None_iff)
  show ?case using Cons.IH [OF pk] none by auto
qed

lemma kv_pkey_filter: "kv_pkey tbl \<Longrightarrow> kv_pkey (filter p tbl)"
  by (simp add: kv_pkey_def distinct_map_filter)

lemma filter_key_lookup:
  "kv_pkey tbl \<Longrightarrow>
   filter (\<lambda>r. kv_key r = k \<and> c r) tbl =
     (case kv_lookup k tbl of None \<Rightarrow> [] | Some r \<Rightarrow> if c r then [r] else [])"
proof (induction tbl)
  case Nil
  then show ?case by simp
next
  case (Cons a tbl)
  then have pk: "kv_pkey tbl" and fresh: "\<forall>r \<in> set tbl. kv_key r \<noteq> kv_key a"
    by (simp_all add: kv_pkey_Cons)
  have "filter (\<lambda>r. kv_key r = k \<and> c r) tbl = []" if "kv_key a = k"
  proof -
    have "\<forall>r \<in> set tbl. kv_key r \<noteq> k"
      using fresh that by simp
    then show ?thesis by (simp add: filter_empty_conv)
  qed
  then show ?case using Cons.IH [OF pk] by auto
qed

lemma live_at_lookup:
  "kv_pkey tbl \<Longrightarrow> live_at t k tbl \<longleftrightarrow> (\<exists>r. kv_lookup k tbl = Some r \<and> live t r)"
  unfolding live_at_def
  by (metis kv_lookup_SomeD kv_lookup_mem)


lemma map_key_cond_id:
  assumes "kv_pkey tbl" and "kv_lookup k tbl = Some r" and "\<not> c r"
  shows "map (\<lambda>r'. if kv_key r' = k \<and> c r' then f r' else r') tbl = tbl"
proof -
  have "r' = r" if "r' \<in> set tbl" and "kv_key r' = k" for r'
    using kv_lookup_mem [OF assms(1) that(1)] that(2) assms(2) by simp
  then have "\<forall>r' \<in> set tbl. (if kv_key r' = k \<and> c r' then f r' else r') = r'"
    using assms(3) by auto
  then show ?thesis by (simp add: map_idI)
qed

lemma map_key_cond_all:
  assumes "kv_pkey tbl" and "kv_lookup k tbl = Some r" and "c r"
  shows "map (\<lambda>r'. if kv_key r' = k \<and> c r' then f r' else r') tbl =
         map (\<lambda>r'. if kv_key r' = k then f r' else r') tbl"
proof -
  have "r' = r" if "r' \<in> set tbl" and "kv_key r' = k" for r'
    using kv_lookup_mem [OF assms(1) that(1)] that(2) assms(2) by simp
  then have "\<forall>r' \<in> set tbl. (if kv_key r' = k \<and> c r' then f r' else r') =
      (if kv_key r' = k then f r' else r')"
    using assms(3) by auto
  then show ?thesis by simp
qed

lemma sql_insert_on_conflict_update_pk:
  assumes "kv_pkey tbl"
  shows "sql_insert_on_conflict_update c new tbl =
     (case kv_lookup (kv_key new) tbl of
        None \<Rightarrow> (1, tbl @ [new])
      | Some r \<Rightarrow>
          if c r then (1, map (\<lambda>r'. if kv_key r' = kv_key new then new else r') tbl)
          else (0, tbl))"
proof (cases "kv_lookup (kv_key new) tbl")
  case None
  then have "\<not> (\<exists>r \<in> set tbl. kv_key r = kv_key new)"
    by (auto simp: kv_lookup_None_iff)
  then show ?thesis using None by (simp add: sql_insert_on_conflict_update_def)
next
  case (Some r)
  then have ex: "\<exists>r \<in> set tbl. kv_key r = kv_key new"
    using kv_lookup_SomeD by blast
  show ?thesis
  proof (cases "c r")
    case True
    show ?thesis
      using ex Some True map_key_cond_all [of tbl "kv_key new" r c "\<lambda>_. new", OF assms Some True]
      by (simp add: sql_insert_on_conflict_update_def filter_key_lookup [OF assms])
  next
    case False
    show ?thesis
      using ex Some False map_key_cond_id [of tbl "kv_key new" r c "\<lambda>_. new", OF assms Some False]
      by (simp add: sql_insert_on_conflict_update_def filter_key_lookup [OF assms])
  qed
qed

lemma sql_update_pk:
  assumes "kv_pkey tbl"
  shows "sql_update f (\<lambda>r. kv_key r = k \<and> c r) tbl =
     (case kv_lookup k tbl of
        None \<Rightarrow> (0, tbl)
      | Some r \<Rightarrow>
          if c r then (1, map (\<lambda>r'. if kv_key r' = k then f r' else r') tbl)
          else (0, tbl))"
proof (cases "kv_lookup k tbl")
  case None
  then have "\<forall>r \<in> set tbl. \<not> (kv_key r = k \<and> c r)"
    by (auto simp: kv_lookup_None_iff)
  then have "map (\<lambda>r. if kv_key r = k \<and> c r then f r else r) tbl = tbl"
    by (intro map_idI) auto
  then show ?thesis
    using None by (simp add: sql_update_def filter_key_lookup [OF assms])
next
  case (Some r)
  show ?thesis
  proof (cases "c r")
    case True
    show ?thesis
      using Some True map_key_cond_all [of tbl k r c f, OF assms Some True]
      by (simp add: sql_update_def filter_key_lookup [OF assms])
  next
    case False
    show ?thesis
      using Some False map_key_cond_id [of tbl k r c f, OF assms Some False]
      by (simp add: sql_update_def filter_key_lookup [OF assms])
  qed
qed

lemma kv_lookup_replace:
  assumes "\<And>r. kv_key (f r) = kv_key r"
  shows "kv_lookup k' (map (\<lambda>r'. if kv_key r' = k then f r' else r') tbl) =
     (if k' = k then map_option f (kv_lookup k tbl) else kv_lookup k' tbl)"
  using assms by (induction tbl) auto

lemma kv_pkey_replace:
  assumes "\<And>r. kv_key (f r) = kv_key r"
  shows "kv_pkey (map (\<lambda>r'. if kv_key r' = k then f r' else r') tbl) = kv_pkey tbl"
  by (rule kv_pkey_map) (simp add: assms)

lemma kv_lookup_replace_const:
  assumes "kv_key new = k"
  shows "kv_lookup k' (map (\<lambda>r'. if kv_key r' = k then new else r') tbl) =
     (if k' = k then map_option (\<lambda>_. new) (kv_lookup k tbl) else kv_lookup k' tbl)"
  using assms by (induction tbl) auto

lemma kv_pkey_replace_const:
  assumes "kv_key new = k"
  shows "kv_pkey (map (\<lambda>r'. if kv_key r' = k then new else r') tbl) = kv_pkey tbl"
  by (rule kv_pkey_map) (simp add: assms)

lemma kv_pkey_snoc:
  "kv_lookup (kv_key new) tbl = None \<Longrightarrow> kv_pkey (tbl @ [new]) = kv_pkey tbl"
  by (induction tbl) (auto simp: kv_pkey_Cons kv_pkey_def split: if_splits)

lemma kv_lookup_snoc:
  "kv_lookup (kv_key new) tbl = None \<Longrightarrow>
   kv_lookup k (tbl @ [new]) = (if k = kv_key new then Some new else kv_lookup k tbl)"
  by (auto simp: kv_lookup_append split: option.splits)

lemma exec_rows_affected_ok:
  "fault e = None \<Longrightarrow>
   exec_rows_affected e stmt tbl = (Inr (0 < fst (stmt tbl)), snd (stmt tbl))"
  by (simp add: exec_rows_affected_def pool_Exec_def split: prod.splits)

lemma kv_key_item_row [simp]: "kv_key (item_row i u) = Key i"
  by (simp add: item_row_def)

subsection \<open>The primary key is an invariant\<close>

text \<open>
  The empty table satisfies the primary key and every operation keeps it, whatever the
  outcome of the call: the hypothesis \<open>kv_pkey\<close> of the theorems below holds in every
  table the backend can reach.
\<close>

lemma kv_pkey_empty: "kv_pkey []"
  by (simp add: kv_pkey_def)

lemma kv_pkey_insert_on_conflict_update:
  assumes "kv_pkey tbl"
  shows "kv_pkey (snd (sql_insert_on_conflict_update c new tbl))"
proof (cases "kv_lookup (kv_key new) tbl")
  case None
  then show ?thesis
    using assms by (simp add: sql_insert_on_conflict_update_pk kv_pkey_snoc)
next
  case (Some r)
  then show ?thesis
    using assms by (simp add: sql_insert_on_conflict_update_pk kv_pkey_replace_const)
qed

lemma kv_pkey_update:
  assumes "kv_pkey tbl" and "\<And>r. kv_key (f r) = kv_key r"
  shows "kv_pkey (snd (sql_update f c tbl))"
proof -
  have "kv_pkey (map (\<lambda>r. if c r then f r else r) tbl) = kv_pkey tbl"
    by (rule kv_pkey_map) (simp add: assms(2))
  then show ?thesis using assms(1) by (simp add: sql_update_def)
qed

lemma kv_pkey_delete: "kv_pkey tbl \<Longrightarrow> kv_pkey (snd (sql_delete c tbl))"
  by (simp add: sql_delete_def kv_pkey_filter)

lemma snd_pool_Exec:
  "snd (pool_Exec e stmt tbl) = (if fault e = None then snd (stmt tbl) else tbl)"
  by (simp add: pool_Exec_def split: option.splits prod.splits)

lemma snd_exec_rows_affected:
  "snd (exec_rows_affected e stmt tbl) = (if fault e = None then snd (stmt tbl) else tbl)"
  by (simp add: exec_rows_affected_def pool_Exec_def split: option.splits prod.splits)

lemma kv_pkey_exec_rows_affected:
  "kv_pkey tbl \<Longrightarrow> kv_pkey (snd (stmt tbl)) \<Longrightarrow> kv_pkey (snd (exec_rows_affected e stmt tbl))"
  by (simp add: snd_exec_rows_affected)

lemma kv_pkey_Create: "kv_pkey tbl \<Longrightarrow> kv_pkey (snd (Create e i tbl))"
  using kv_pkey_exec_rows_affected [of tbl
      "sql_insert_on_conflict_update (expired (now e)) (item_row i (newRevision e))" e]
  by (auto simp: Create_def Retry_def Let_def kv_pkey_insert_on_conflict_update
      split: prod.splits sum.splits)

lemma kv_pkey_Put: "kv_pkey tbl \<Longrightarrow> kv_pkey (snd (Put e i tbl))"
  using kv_pkey_insert_on_conflict_update [of tbl "\<lambda>r. True" "item_row i (newRevision e)"]
  by (auto simp: Put_def Retry_def Let_def pool_Exec_def split: prod.splits sum.splits option.splits)

lemma kv_pkey_Update: "kv_pkey tbl \<Longrightarrow> kv_pkey (snd (Update e i tbl))"
  using kv_pkey_exec_rows_affected [of tbl
      "sql_update (\<lambda>r. r\<lparr>kv_value := Value i,
           kv_expires := Timestamptz_Value (UTC (Expires i)), kv_revision := newRevision e\<rparr>)
         (\<lambda>r. kv_key r = Key i \<and> live (now e) r)" e]
  by (auto simp: Update_def Retry_def Let_def kv_pkey_update split: prod.splits sum.splits)

lemma kv_pkey_CompareAndSwap:
  "kv_pkey tbl \<Longrightarrow> kv_pkey (snd (CompareAndSwap e expected replaceWith tbl))"
  using kv_pkey_exec_rows_affected [of tbl
      "sql_update (\<lambda>r. r\<lparr>kv_value := Value replaceWith,
           kv_expires := Timestamptz_Value (UTC (Expires replaceWith)),
           kv_revision := newRevision e\<rparr>)
         (\<lambda>r. kv_key r = Key replaceWith \<and> kv_value r = Value expected \<and> live (now e) r)" e]
  by (auto simp: CompareAndSwap_def Retry_def Let_def kv_pkey_update
      split: prod.splits sum.splits)

lemma kv_pkey_KeepAlive: "kv_pkey tbl \<Longrightarrow> kv_pkey (snd (KeepAlive e lease expires tbl))"
  using kv_pkey_exec_rows_affected [of tbl
      "sql_update (\<lambda>r. r\<lparr>kv_expires := Timestamptz_Value (UTC expires),
           kv_revision := newRevision e\<rparr>)
         (\<lambda>r. kv_key r = LeaseKey lease \<and> live (now e) r)" e]
  by (auto simp: KeepAlive_def Retry_def Let_def kv_pkey_update split: prod.splits sum.splits)

lemma kv_pkey_Delete: "kv_pkey tbl \<Longrightarrow> kv_pkey (snd (Delete e k tbl))"
  using kv_pkey_exec_rows_affected [of tbl
      "sql_delete (\<lambda>r. kv_key r = k \<and> live (now e) r)" e]
  by (auto simp: Delete_def Retry_def kv_pkey_delete split: prod.splits sum.splits)

lemma kv_pkey_DeleteRange: "kv_pkey tbl \<Longrightarrow> kv_pkey (snd (DeleteRange e startKey endKey tbl))"
  using kv_pkey_delete [of tbl "key_between startKey endKey"]
  by (auto simp: DeleteRange_def Retry_def pool_Exec_def split: prod.splits sum.splits option.splits)

section \<open>The operations\<close>

subsection \<open>Create\<close>

text \<open>
  C1. When the statement reaches the store and the table satisfies its primary key:
  Create fails with AlreadyExists, leaving the table as it is, exactly when a live row
  exists at the item's key; otherwise (no row, or an expired one) it succeeds, the row
  at the key is afterwards the item's row with the new revision, every other key is
  untouched, and the lease returned carries the item's Key and Expires.
\<close>

theorem Create_spec:
  assumes "fault e = None" and "kv_pkey tbl"
  shows "if live_at (now e) (Key i) tbl
         then Create e i tbl = (Inl AlreadyExists, tbl)
         else (\<exists>tbl'. Create e i tbl =
                  (Inr \<lparr>LeaseKey = Key i, LeaseExpires = Expires i\<rparr>, tbl')
               \<and> kv_pkey tbl'
               \<and> kv_lookup (Key i) tbl' = Some (item_row i (newRevision e))
               \<and> (\<forall>k. k \<noteq> Key i \<longrightarrow> kv_lookup k tbl' = kv_lookup k tbl))"
proof -
  let ?new = "item_row i (newRevision e)"
  have C: "Create e i tbl =
      (case sql_insert_on_conflict_update (expired (now e)) ?new tbl of
         (n, tbl') \<Rightarrow> if 0 < n then (Inr (newLease i), tbl') else (Inl AlreadyExists, tbl'))"
    using assms(1)
    by (simp add: Create_def Retry_def exec_rows_affected_ok split: prod.splits)
  show ?thesis
  proof (cases "kv_lookup (Key i) tbl")
    case None
    then have "\<not> live_at (now e) (Key i) tbl"
      by (simp add: live_at_lookup [OF assms(2)])
    then show ?thesis
      using None assms(2) C
      by (simp add: sql_insert_on_conflict_update_pk newLease_def
          kv_pkey_snoc kv_lookup_snoc)
  next
    case (Some r)
    show ?thesis
    proof (cases "live (now e) r")
      case True
      then have "live_at (now e) (Key i) tbl"
        using Some by (simp add: live_at_lookup [OF assms(2)])
      then show ?thesis
        using Some True assms(2) C
        by (simp add: sql_insert_on_conflict_update_pk expired_iff_not_live)
    next
      case False
      then have "\<not> live_at (now e) (Key i) tbl"
        using Some by (simp add: live_at_lookup [OF assms(2)])
      then show ?thesis
        using Some False assms(2) C
        by (simp add: sql_insert_on_conflict_update_pk expired_iff_not_live newLease_def
            kv_pkey_replace_const kv_lookup_replace_const)
    qed
  qed
qed

theorem Create_spec_witness:
  "fault ex_env = None \<and> kv_pkey ex_tbl
   \<and> live_at 10 [1] ex_tbl
   \<and> Create ex_env (ex_item [1] 30) ex_tbl = (Inl AlreadyExists, ex_tbl)
   \<and> \<not> live_at 10 [2] ex_tbl
   \<and> fst (Create ex_env (ex_item [2] 30) ex_tbl)
       = Inr \<lparr>LeaseKey = [2], LeaseExpires = \<lparr>instant = 30, location = Local_Location\<rparr>\<rparr>
   \<and> \<not> live_at 10 [5] ex_tbl
   \<and> fst (Create ex_env (ex_item [5] 30) ex_tbl)
       = Inr \<lparr>LeaseKey = [5], LeaseExpires = \<lparr>instant = 30, location = Local_Location\<rparr>\<rparr>"
  using Create_spec [of ex_env ex_tbl "ex_item [1] 30"]
    Create_spec [of ex_env ex_tbl "ex_item [2] 30"]
    Create_spec [of ex_env ex_tbl "ex_item [5] 30"]
  by (auto simp: kv_pkey_def live_at_def live_def)

subsection \<open>CompareAndSwap\<close>

lemma live_value_at_lookup:
  "kv_pkey tbl \<Longrightarrow>
   live_value_at t k v tbl \<longleftrightarrow> (\<exists>r. kv_lookup k tbl = Some r \<and> kv_value r = v \<and> live t r)"
  unfolding live_value_at_def
  by (metis kv_lookup_SomeD kv_lookup_mem)

lemma set_cols_item_row:
  "kv_key r = Key i \<Longrightarrow>
   r\<lparr>kv_value := Value i, kv_expires := Timestamptz_Value (UTC (Expires i)),
     kv_revision := u\<rparr> = item_row i u"
  by (cases r) (simp add: item_row_def)

text \<open>
  C2. CompareAndSwap fails with BadParameter, touching nothing, when the two keys differ
  (whatever the state of the store and of the connection). With equal keys, when the
  statement reaches the store and the table satisfies its primary key, it succeeds
  exactly when a live row with the expected value exists at the key: then the row is
  afterwards the row of \<open>replaceWith\<close> (its value and expiry, with the new revision) and
  every other key is untouched; otherwise it fails with CompareFailed and the table is
  unchanged.
\<close>

theorem CompareAndSwap_spec:
  "(Key expected \<noteq> Key replaceWith \<longrightarrow>
      CompareAndSwap e expected replaceWith tbl = (Inl BadParameter, tbl))
   \<and> (Key expected = Key replaceWith \<and> fault e = None \<and> kv_pkey tbl \<longrightarrow>
      (if live_value_at (now e) (Key replaceWith) (Value expected) tbl
       then \<exists>tbl'. CompareAndSwap e expected replaceWith tbl = (Inr (newLease replaceWith), tbl')
              \<and> kv_pkey tbl'
              \<and> kv_lookup (Key replaceWith) tbl' = Some (item_row replaceWith (newRevision e))
              \<and> (\<forall>k. k \<noteq> Key replaceWith \<longrightarrow> kv_lookup k tbl' = kv_lookup k tbl)
       else CompareAndSwap e expected replaceWith tbl = (Inl CompareFailed, tbl)))"
proof (intro conjI impI)
  assume "Key expected \<noteq> Key replaceWith"
  then show "CompareAndSwap e expected replaceWith tbl = (Inl BadParameter, tbl)"
    by (simp add: CompareAndSwap_def)
next
  assume A: "Key expected = Key replaceWith \<and> fault e = None \<and> kv_pkey tbl"
  then have keys: "Key expected = Key replaceWith" and ok: "fault e = None" and pk: "kv_pkey tbl"
    by simp_all
  let ?k = "Key replaceWith"
  let ?c = "\<lambda>r. kv_value r = Value expected \<and> live (now e) r"
  let ?f = "\<lambda>r. r\<lparr>kv_value := Value replaceWith,
      kv_expires := Timestamptz_Value (UTC (Expires replaceWith)),
      kv_revision := newRevision e\<rparr>"
  have fkey: "\<And>r. kv_key (?f r) = kv_key r" by simp
  have C: "CompareAndSwap e expected replaceWith tbl =
      (case sql_update ?f (\<lambda>r. kv_key r = ?k \<and> ?c r) tbl of
         (n, tbl') \<Rightarrow> if 0 < n then (Inr (newLease replaceWith), tbl')
                      else (Inl CompareFailed, tbl'))"
    using keys ok
    by (simp add: CompareAndSwap_def Retry_def exec_rows_affected_ok split: prod.splits)
  note U = sql_update_pk [OF pk, of ?f ?k ?c]
  show "if live_value_at (now e) ?k (Value expected) tbl
       then \<exists>tbl'. CompareAndSwap e expected replaceWith tbl = (Inr (newLease replaceWith), tbl')
              \<and> kv_pkey tbl'
              \<and> kv_lookup ?k tbl' = Some (item_row replaceWith (newRevision e))
              \<and> (\<forall>k. k \<noteq> ?k \<longrightarrow> kv_lookup k tbl' = kv_lookup k tbl)
       else CompareAndSwap e expected replaceWith tbl = (Inl CompareFailed, tbl)"
  proof (cases "kv_lookup ?k tbl")
    case None
    then have "\<not> live_value_at (now e) ?k (Value expected) tbl"
      by (simp add: live_value_at_lookup [OF pk])
    then show ?thesis using None C U by simp
  next
    case (Some r)
    then have rk: "kv_key r = ?k" using kv_lookup_SomeD by blast
    show ?thesis
    proof (cases "?c r")
      case True
      then have L: "live_value_at (now e) ?k (Value expected) tbl"
        using Some by (simp add: live_value_at_lookup [OF pk])
      let ?tbl' = "map (\<lambda>r'. if kv_key r' = ?k then ?f r' else r') tbl"
      have 1: "CompareAndSwap e expected replaceWith tbl = (Inr (newLease replaceWith), ?tbl')"
        using Some True C U by simp
      have 2: "kv_pkey ?tbl'"
        using pk kv_pkey_replace [of ?f ?k tbl] by simp
      have 3: "kv_lookup ?k ?tbl' = Some (item_row replaceWith (newRevision e))"
        using Some kv_lookup_replace [of ?f ?k ?k tbl] set_cols_item_row [OF rk]
        by simp
      have 4: "\<forall>k. k \<noteq> ?k \<longrightarrow> kv_lookup k ?tbl' = kv_lookup k tbl"
        using kv_lookup_replace [of ?f _ ?k tbl] by simp
      show ?thesis using L 1 2 3 4 by simp
    next
      case False
      then have "\<not> live_value_at (now e) ?k (Value expected) tbl"
        using Some by (simp add: live_value_at_lookup [OF pk])
      then show ?thesis using Some False C U by simp
    qed
  qed
qed

theorem CompareAndSwap_spec_witness:
  "CompareAndSwap ex_env (ex_item [1] 30) (ex_item [3] 30) ex_tbl = (Inl BadParameter, ex_tbl)
   \<and> fault ex_env = None \<and> kv_pkey ex_tbl
   \<and> live_value_at 10 [3] [7] ex_tbl
   \<and> fst (CompareAndSwap ex_env \<lparr>Key = [3], Value = [7], Expires = zero_Time\<rparr>
             (ex_item [3] 30) ex_tbl)
       = Inr \<lparr>LeaseKey = [3], LeaseExpires = \<lparr>instant = 30, location = Local_Location\<rparr>\<rparr>
   \<and> \<not> live_value_at 10 [3] [6] ex_tbl
   \<and> CompareAndSwap ex_env \<lparr>Key = [3], Value = [6], Expires = zero_Time\<rparr>
             (ex_item [3] 30) ex_tbl = (Inl CompareFailed, ex_tbl)
   \<and> \<not> live_value_at 10 [2] [8] ex_tbl
   \<and> CompareAndSwap ex_env \<lparr>Key = [2], Value = [8], Expires = zero_Time\<rparr>
             (ex_item [2] 30) ex_tbl = (Inl CompareFailed, ex_tbl)"
  using CompareAndSwap_spec [of "ex_item [1] 30" "ex_item [3] 30" ex_env ex_tbl]
    CompareAndSwap_spec [of "\<lparr>Key = [3], Value = [7], Expires = zero_Time\<rparr>" "ex_item [3] 30"
      ex_env ex_tbl]
    CompareAndSwap_spec [of "\<lparr>Key = [3], Value = [6], Expires = zero_Time\<rparr>" "ex_item [3] 30"
      ex_env ex_tbl]
    CompareAndSwap_spec [of "\<lparr>Key = [2], Value = [8], Expires = zero_Time\<rparr>" "ex_item [2] 30"
      ex_env ex_tbl]
  by (auto simp: kv_pkey_def live_value_at_def live_def newLease_def)

subsection \<open>Update, Delete and KeepAlive\<close>

lemma sql_update_none:
  "\<not> (\<exists>r \<in> set tbl. c r) \<Longrightarrow> sql_update f c tbl = (0, tbl)"
proof -
  assume A: "\<not> (\<exists>r \<in> set tbl. c r)"
  then have "filter c tbl = []" by (simp add: filter_empty_conv)
  moreover have "map (\<lambda>r. if c r then f r else r) tbl = tbl"
    using A by (intro map_idI) auto
  ultimately show ?thesis by (simp add: sql_update_def)
qed

lemma sql_delete_none:
  "\<not> (\<exists>r \<in> set tbl. c r) \<Longrightarrow> sql_delete c tbl = (0, tbl)"
proof -
  assume A: "\<not> (\<exists>r \<in> set tbl. c r)"
  then have "filter c tbl = []" by (simp add: filter_empty_conv)
  moreover have "filter (\<lambda>r. \<not> c r) tbl = tbl"
    using A by (simp add: filter_id_conv)
  ultimately show ?thesis by (simp add: sql_delete_def)
qed

lemma sql_update_some: "\<exists>r \<in> set tbl. c r \<Longrightarrow> 0 < fst (sql_update f c tbl)"
  by (simp add: sql_update_def filter_empty_conv)

lemma sql_delete_some: "\<exists>r \<in> set tbl. c r \<Longrightarrow> 0 < fst (sql_delete c tbl)"
  by (simp add: sql_delete_def filter_empty_conv)

lemma Update_no_live:
  "fault e = None \<Longrightarrow> \<not> live_at (now e) (Key i) tbl \<Longrightarrow> Update e i tbl = (Inl NotFound, tbl)"
  by (simp add: Update_def Retry_def exec_rows_affected_ok sql_update_none live_at_def)

lemma Update_live:
  "fault e = None \<Longrightarrow> live_at (now e) (Key i) tbl \<Longrightarrow> fst (Update e i tbl) = Inr (newLease i)"
  by (simp add: Update_def Retry_def exec_rows_affected_ok sql_update_some live_at_def
      split: prod.splits)

lemma Delete_no_live:
  "fault e = None \<Longrightarrow> \<not> live_at (now e) k tbl \<Longrightarrow> Delete e k tbl = (Some NotFound, tbl)"
  by (simp add: Delete_def Retry_def exec_rows_affected_ok sql_delete_none live_at_def)

lemma Delete_live:
  "fault e = None \<Longrightarrow> live_at (now e) k tbl \<Longrightarrow> fst (Delete e k tbl) = None"
  by (simp add: Delete_def Retry_def exec_rows_affected_ok sql_delete_some live_at_def
      split: prod.splits)

lemma KeepAlive_no_live:
  "fault e = None \<Longrightarrow> \<not> live_at (now e) (LeaseKey lease) tbl \<Longrightarrow>
   KeepAlive e lease expires tbl = (Some NotFound, tbl)"
  by (simp add: KeepAlive_def Retry_def exec_rows_affected_ok sql_update_none live_at_def)

lemma KeepAlive_live:
  "fault e = None \<Longrightarrow> live_at (now e) (LeaseKey lease) tbl \<Longrightarrow>
   fst (KeepAlive e lease expires tbl) = None"
  by (simp add: KeepAlive_def Retry_def exec_rows_affected_ok sql_update_some live_at_def
      split: prod.splits)

text \<open>
  C3. When the statement reaches the store: on a key with no live row (no row at all, or
  only an expired one) Update, Delete and KeepAlive each fail with NotFound and leave the
  table as it is; on a key with a live row each of them succeeds.
\<close>

theorem Update_Delete_KeepAlive_NotFound:
  assumes "fault e = None"
  shows "if live_at (now e) k tbl
         then (\<forall>i. Key i = k \<longrightarrow> (\<exists>lease. fst (Update e i tbl) = Inr lease))
            \<and> fst (Delete e k tbl) = None
            \<and> (\<forall>lease expires. LeaseKey lease = k \<longrightarrow> fst (KeepAlive e lease expires tbl) = None)
         else (\<forall>i. Key i = k \<longrightarrow> Update e i tbl = (Inl NotFound, tbl))
            \<and> Delete e k tbl = (Some NotFound, tbl)
            \<and> (\<forall>lease expires. LeaseKey lease = k \<longrightarrow>
                  KeepAlive e lease expires tbl = (Some NotFound, tbl))"
  using assms
  by (auto simp: Update_no_live Update_live Delete_no_live Delete_live
      KeepAlive_no_live KeepAlive_live)

theorem Update_Delete_KeepAlive_NotFound_witness:
  "fault ex_env = None
   \<and> \<not> live_at 10 [2] ex_tbl
   \<and> Update ex_env (ex_item [2] 30) ex_tbl = (Inl NotFound, ex_tbl)
   \<and> Delete ex_env [2] ex_tbl = (Some NotFound, ex_tbl)
   \<and> KeepAlive ex_env \<lparr>LeaseKey = [2], LeaseExpires = zero_Time\<rparr> zero_Time ex_tbl
       = (Some NotFound, ex_tbl)
   \<and> \<not> live_at 10 [5] ex_tbl
   \<and> Update ex_env (ex_item [5] 30) ex_tbl = (Inl NotFound, ex_tbl)
   \<and> Delete ex_env [5] ex_tbl = (Some NotFound, ex_tbl)
   \<and> KeepAlive ex_env \<lparr>LeaseKey = [5], LeaseExpires = zero_Time\<rparr> zero_Time ex_tbl
       = (Some NotFound, ex_tbl)
   \<and> live_at 10 [3] ex_tbl
   \<and> (\<exists>lease. fst (Update ex_env (ex_item [3] 30) ex_tbl) = Inr lease)
   \<and> fst (Delete ex_env [3] ex_tbl) = None
   \<and> fst (KeepAlive ex_env \<lparr>LeaseKey = [3], LeaseExpires = zero_Time\<rparr> zero_Time ex_tbl) = None"
proof -
  have l2: "\<not> live_at 10 [2] ex_tbl" and l5: "\<not> live_at 10 [5] ex_tbl"
    and l3: "live_at 10 [3] ex_tbl"
    by (simp_all add: live_at_def live_def)
  show ?thesis
    using l2 l3 l5
      Update_Delete_KeepAlive_NotFound [of ex_env "[2]" ex_tbl]
      Update_Delete_KeepAlive_NotFound [of ex_env "[5]" ex_tbl]
      Update_Delete_KeepAlive_NotFound [of ex_env "[3]" ex_tbl]
    by simp
qed

subsection \<open>DeleteRange\<close>

text \<open>
  C6. When the statement reaches the store, DeleteRange returns no error, also when no
  row matches, and the table afterwards consists of exactly the rows whose key lies
  outside \<open>[startKey, endKey]\<close>: every row of the range is removed, live or expired,
  and every other key is untouched. Delete, in contrast, removes nothing and fails with
  NotFound on a key whose row has expired.
\<close>

theorem DeleteRange_spec:
  assumes "fault e = None"
  shows "(\<exists>tbl'. DeleteRange e startKey endKey tbl = (None, tbl')
           \<and> set tbl' = {r \<in> set tbl. \<not> (startKey \<le> kv_key r \<and> kv_key r \<le> endKey)}
           \<and> (\<forall>k. startKey \<le> k \<and> k \<le> endKey \<longrightarrow> kv_lookup k tbl' = None)
           \<and> (\<forall>k. \<not> (startKey \<le> k \<and> k \<le> endKey) \<longrightarrow> kv_lookup k tbl' = kv_lookup k tbl))
         \<and> (\<forall>k. \<not> live_at (now e) k tbl \<longrightarrow> Delete e k tbl = (Some NotFound, tbl))"
proof -
  let ?tbl' = "filter (\<lambda>r. \<not> key_between startKey endKey r) tbl"
  have 1: "DeleteRange e startKey endKey tbl = (None, ?tbl')"
    using assms by (simp add: DeleteRange_def Retry_def pool_Exec_def sql_delete_def)
  have 2: "set ?tbl' = {r \<in> set tbl. \<not> (startKey \<le> kv_key r \<and> kv_key r \<le> endKey)}"
    by (auto simp: key_between_def)
  have 3: "\<forall>k. startKey \<le> k \<and> k \<le> endKey \<longrightarrow> kv_lookup k ?tbl' = None"
    by (auto simp: kv_lookup_None_iff key_between_def)
  have 4: "\<forall>k. \<not> (startKey \<le> k \<and> k \<le> endKey) \<longrightarrow> kv_lookup k ?tbl' = kv_lookup k tbl"
    by (induction tbl) (auto simp: key_between_def)
  have 5: "\<forall>k. \<not> live_at (now e) k tbl \<longrightarrow> Delete e k tbl = (Some NotFound, tbl)"
    using assms by (simp add: Delete_no_live)
  show ?thesis
    apply (intro conjI exI [of _ ?tbl'])
    apply (rule 1)
    apply (rule 2)
    apply (rule 3)
    apply (rule 4)
    apply (rule 5)
    done
qed

theorem DeleteRange_spec_witness:
  "fault ex_env = None
   \<and> DeleteRange ex_env [2] [3, 0] ex_tbl
       = (None, [\<lparr>kv_key = [1], kv_value = [9], kv_expires = None, kv_revision = 1\<rparr>])
   \<and> DeleteRange ex_env [4] [5] ex_tbl = (None, ex_tbl)
   \<and> kv_lookup [2] (snd (DeleteRange ex_env [2] [2] ex_tbl)) = None
   \<and> \<not> live_at 10 [2] ex_tbl
   \<and> Delete ex_env [2] ex_tbl = (Some NotFound, ex_tbl)"
proof -
  have l2: "\<not> live_at 10 [2] ex_tbl"
    by (simp add: live_at_def live_def)
  have a: "DeleteRange ex_env [2] [3, 0] ex_tbl
       = (None, [\<lparr>kv_key = [1], kv_value = [9], kv_expires = None, kv_revision = 1\<rparr>])"
    and b: "DeleteRange ex_env [4] [5] ex_tbl = (None, ex_tbl)"
    by (simp_all add: DeleteRange_def Retry_def pool_Exec_def sql_delete_def key_between_def)
  have c: "kv_lookup [2] (snd (DeleteRange ex_env [2] [2] ex_tbl)) = None"
    and d: "Delete ex_env [2] ex_tbl = (Some NotFound, ex_tbl)"
    using l2 DeleteRange_spec [of ex_env "[2]" "[2]" ex_tbl]
    by fastforce+
  show ?thesis
    using l2 a b c d by simp
qed

subsection \<open>Put, then Get\<close>

lemma Get_pk:
  assumes "fault e = None" and "kv_pkey tbl"
  shows "Get e k tbl =
     (case kv_lookup k tbl of
        None \<Rightarrow> (Inl NotFound, tbl)
      | Some r \<Rightarrow> if live (now e) r then (Inr (scan_item k r), tbl) else (Inl NotFound, tbl))"
  using assms(1)
  by (simp add: Get_def RetryIdempotent_def pool_SendBatch_read_only_def sql_select_def
      QueryRow_def filter_key_lookup [OF assms(2)] split: option.splits)

lemma Put_pk:
  assumes "fault e = None" and "kv_pkey tbl"
  shows "\<exists>tbl'. Put e i tbl = (Inr (newLease i), tbl') \<and> kv_pkey tbl'
           \<and> kv_lookup (Key i) tbl' = Some (item_row i (newRevision e))
           \<and> (\<forall>k. k \<noteq> Key i \<longrightarrow> kv_lookup k tbl' = kv_lookup k tbl)"
proof -
  let ?new = "item_row i (newRevision e)"
  have P: "Put e i tbl = (Inr (newLease i), snd (sql_insert_on_conflict_update (\<lambda>r. True) ?new tbl))"
    using assms(1) by (simp add: Put_def Retry_def pool_Exec_def split: prod.splits)
  show ?thesis
  proof (cases "kv_lookup (Key i) tbl")
    case None
    then show ?thesis
      using assms(2) P
      by (simp add: sql_insert_on_conflict_update_pk kv_pkey_snoc kv_lookup_snoc)
  next
    case (Some r)
    then show ?thesis
      using assms(2) P
      by (simp add: sql_insert_on_conflict_update_pk kv_pkey_replace_const
          kv_lookup_replace_const)
  qed
qed

lemma div_1000_split:
  "(n::int) div 1000000000 * 1000000 + n mod 1000000000 div 1000 = n div 1000"
proof -
  have a: "n div 1000000000 = n div 1000 div 1000000"
    using zdiv_zmult2_eq [of 1000000 n 1000] by simp
  have b: "n mod 1000000000 = 1000 * (n div 1000 mod 1000000) + n mod 1000"
    using zmod_zmult2_eq [of 1000000 n 1000] by simp
  have c: "n mod 1000000000 div 1000 = n div 1000 mod 1000000"
    by (simp add: b)
  show ?thesis by (simp add: a c)
qed

lemma microsecSinceY2K_in_range:
  assumes "in_timestamptz_range t"
  shows "microsecSinceY2K t =
     instant t div 1000 - unixToInternal * 1000000 - microsecFromUnixEpochToY2K"
proof -
  let ?us = "instant t div 1000 - unixToInternal * 1000000 - microsecFromUnixEpochToY2K"
  have r: "- (2 ^ 63) \<le> ?us" "?us < 2 ^ 63"
    using assms
    by (simp_all add: in_timestamptz_range_def Let_def MIN_TIMESTAMP_def END_TIMESTAMP_def)
  have "?us = Unix t * 1000000 + Nanosecond t div 1000 - microsecFromUnixEpochToY2K"
    using div_1000_split [of "instant t"] by (simp add: Unix_def Nanosecond_def algebra_simps)
  then have "(word_of_int (Unix t) * 1000000 + word_of_int (Nanosecond t div 1000)
           - word_of_int microsecFromUnixEpochToY2K :: 64 word) = word_of_int ?us"
    by (simp only: of_int_add of_int_diff of_int_mult of_int_numeral)
  then have "microsecSinceY2K t = sint (word_of_int ?us :: 64 word)"
    by (simp only: microsecSinceY2K_def)
  also have "\<dots> = signed_take_bit (LENGTH(64) - Suc 0) ?us"
    by (simp only: signed_of_int of_int_eq_id id_apply)
  also have "\<dots> = ?us"
    using r by (intro signed_take_bit_int_eq_self) simp_all
  finally show ?thesis .
qed

lemma instant_timestamptz_Time:
  "instant (timestamptz_Time ts) =
     (ts + microsecFromUnixEpochToY2K + unixToInternal * 1000000) * 1000"
proof -
  have "1000000 * (ts sdiv 1000000) + ts smod 1000000 = ts"
    by (rule mult_sdiv_smod_eq)
  moreover have "1000000 * (microsecFromUnixEpochToY2K sdiv 1000000)
      + microsecFromUnixEpochToY2K smod 1000000 = microsecFromUnixEpochToY2K"
    by (rule mult_sdiv_smod_eq)
  ultimately show ?thesis
    by (simp add: timestamptz_Time_def time_Unix_def algebra_simps)
qed

lemma Timestamptz_round_trip:
  assumes "in_timestamptz_range t"
  shows "UTC (Timestamptz_Scan (Timestamptz_Value (UTC t))) = UTC (Truncate_Microsecond t)"
proof (cases "IsZero t")
  case True
  then show ?thesis
    by (simp add: Timestamptz_Value_def Timestamptz_Scan_def IsZero_def UTC_def zero_Time_def
        Truncate_Microsecond_def)
next
  case False
  have rng: "in_timestamptz_range (UTC t)"
    using assms by (simp add: in_timestamptz_range_def UTC_def)
  have "instant (Timestamptz_Scan (Timestamptz_Value (UTC t))) = instant t div 1000 * 1000"
    using False
    by (simp add: Timestamptz_Value_def Timestamptz_Scan_def IsZero_def
        microsecSinceY2K_in_range [OF rng] instant_timestamptz_Time)
      (simp add: UTC_def)
  also have "\<dots> = instant t - instant t mod 1000"
    by (simp add: minus_mod_eq_div_mult)
  finally show ?thesis
    by (simp add: UTC_def Truncate_Microsecond_def)
qed

lemma item_row_live:
  "live t (item_row i u) \<longleftrightarrow> IsZero (Expires i) \<or> t < microsecSinceY2K (Expires i)"
proof -
  have "microsecSinceY2K (UTC (Expires i)) = microsecSinceY2K (Expires i)"
    by (simp add: microsecSinceY2K_def Unix_def Nanosecond_def UTC_def)
  then show ?thesis
    by (simp add: live_def item_row_def Timestamptz_Value_def IsZero_def)
      (simp add: UTC_def)
qed

lemma scan_item_item_row:
  "scan_item (Key i) (item_row i u) =
     \<lparr>Key = Key i, Value = Value i,
      Expires = UTC (Timestamptz_Scan (Timestamptz_Value (UTC (Expires i))))\<rparr>"
  by (simp add: scan_item_def item_row_def)

text \<open>
  C5, as the code has it. When both statements reach the store and the table satisfies
  its primary key, Put succeeds and returns a lease whatever row (live, expired or none)
  is at the key. A Get of the key on the resulting table, at the store's time \<open>now e'\<close>,
  succeeds when the item has no expiry (the zero time) or its expiry as stored is later
  than that time: it returns the item's Key and Value and, for an expiry in the
  column's range, the item's Expires truncated to whole microseconds and normalised to
  UTC. Otherwise the row just written is not live and Get fails with NotFound.
\<close>

theorem Put_then_Get:
  assumes "fault e = None" and "fault e' = None" and "kv_pkey tbl"
  shows "\<exists>lease tbl'. Put e i tbl = (Inr lease, tbl')
           \<and> (if IsZero (Expires i) \<or> now e' < microsecSinceY2K (Expires i)
                then \<exists>item. Get e' (Key i) tbl' = (Inr item, tbl')
                       \<and> Key item = Key i \<and> Value item = Value i
                       \<and> (in_timestamptz_range (Expires i) \<longrightarrow>
                            Expires item = UTC (Truncate_Microsecond (Expires i)))
                else Get e' (Key i) tbl' = (Inl NotFound, tbl'))"
proof -
  obtain tbl' where P: "Put e i tbl = (Inr (newLease i), tbl')" and pk: "kv_pkey tbl'"
    and L: "kv_lookup (Key i) tbl' = Some (item_row i (newRevision e))"
    using Put_pk [OF assms(1,3)] by blast
  let ?item = "scan_item (Key i) (item_row i (newRevision e))"
  have G: "Get e' (Key i) tbl' =
      (if IsZero (Expires i) \<or> now e' < microsecSinceY2K (Expires i)
       then (Inr ?item, tbl') else (Inl NotFound, tbl'))"
    using L by (simp add: Get_pk [OF assms(2) pk] item_row_live)
  have K: "Key ?item = Key i \<and> Value ?item = Value i"
    by (simp add: scan_item_item_row)
  have E: "in_timestamptz_range (Expires i) \<longrightarrow>
      Expires ?item = UTC (Truncate_Microsecond (Expires i))"
    by (simp add: scan_item_item_row Timestamptz_round_trip)
  show ?thesis
  proof (cases "IsZero (Expires i) \<or> now e' < microsecSinceY2K (Expires i)")
    case True
    then have "Get e' (Key i) tbl' = (Inr ?item, tbl')"
      using G by simp
    then have "\<exists>item. Get e' (Key i) tbl' = (Inr item, tbl')
                       \<and> Key item = Key i \<and> Value item = Value i
                       \<and> (in_timestamptz_range (Expires i) \<longrightarrow>
                            Expires item = UTC (Truncate_Microsecond (Expires i)))"
      using K E by blast
    then show ?thesis using P True by auto
  next
    case False
    then have "Get e' (Key i) tbl' = (Inl NotFound, tbl')"
      using G by simp
    then show ?thesis using P False by auto
  qed
qed

theorem Put_then_Get_witness:
  "fault ex_env = None \<and> kv_pkey ex_tbl
   \<and> in_timestamptz_range \<lparr>instant = 63082281600000030999, location = Local_Location\<rparr>
   \<and> microsecSinceY2K \<lparr>instant = 63082281600000030999, location = Local_Location\<rparr> = 30
   \<and> fst (Get ex_env [2] (snd (Put ex_env (ex_item [2] 63082281600000030999) ex_tbl)))
       = Inr \<lparr>Key = [2], Value = [4],
              Expires = \<lparr>instant = 63082281600000030000, location = UTC_Location\<rparr>\<rparr>
   \<and> IsZero \<lparr>instant = 0, location = Local_Location\<rparr>
   \<and> fst (Get ex_env [1] (snd (Put ex_env (ex_item [1] 0) ex_tbl)))
       = Inr \<lparr>Key = [1], Value = [4], Expires = \<lparr>instant = 0, location = UTC_Location\<rparr>\<rparr>
   \<and> microsecSinceY2K \<lparr>instant = 63082281600000010000, location = Local_Location\<rparr> = 10
   \<and> fst (Get ex_env [3] (snd (Put ex_env (ex_item [3] 63082281600000010000) ex_tbl)))
       = Inl NotFound
   \<and> \<not> IsZero \<lparr>instant = 500, location = Local_Location\<rparr>
   \<and> microsecSinceY2K \<lparr>instant = 500, location = Local_Location\<rparr> = - 63082281600000000
   \<and> fst (Get ex_env [3] (snd (Put ex_env (ex_item [3] 500) ex_tbl))) = Inl NotFound"
proof -
  note ev = microsecSinceY2K_def Unix_def Nanosecond_def unixToInternal_def
    microsecFromUnixEpochToY2K_def
  have h: "fault ex_env = None" "kv_pkey ex_tbl"
    by (simp_all add: kv_pkey_def)
  have r: "in_timestamptz_range \<lparr>instant = 63082281600000030999, location = Local_Location\<rparr>"
    by (simp add: in_timestamptz_range_def unixToInternal_def microsecFromUnixEpochToY2K_def
        MIN_TIMESTAMP_def END_TIMESTAMP_def)
  have m30: "microsecSinceY2K \<lparr>instant = 63082281600000030999, location = Local_Location\<rparr> = 30"
    and m10: "microsecSinceY2K \<lparr>instant = 63082281600000010000, location = Local_Location\<rparr> = 10"
    and m500: "microsecSinceY2K \<lparr>instant = 500, location = Local_Location\<rparr>
        = - 63082281600000000"
    by (simp_all add: ev)
  have nz: "\<not> IsZero \<lparr>instant = 500, location = Local_Location\<rparr>"
    by (simp add: IsZero_def)
  have z: "IsZero \<lparr>instant = 0, location = Local_Location\<rparr>"
    by (simp add: IsZero_def)
  have a: "fst (Get ex_env [2] (snd (Put ex_env (ex_item [2] 63082281600000030999) ex_tbl)))
       = Inr \<lparr>Key = [2], Value = [4],
              Expires = \<lparr>instant = 63082281600000030000, location = UTC_Location\<rparr>\<rparr>"
    using Put_then_Get [OF h(1) h(1) h(2), of "ex_item [2] 63082281600000030999"] r m30
    by (auto simp: IsZero_def UTC_def Truncate_Microsecond_def)
  have b: "fst (Get ex_env [1] (snd (Put ex_env (ex_item [1] 0) ex_tbl)))
       = Inr \<lparr>Key = [1], Value = [4], Expires = \<lparr>instant = 0, location = UTC_Location\<rparr>\<rparr>"
    using Put_then_Get [OF h(1) h(1) h(2), of "ex_item [1] 0"] z
    by (auto simp: in_timestamptz_range_def unixToInternal_def microsecFromUnixEpochToY2K_def
        MIN_TIMESTAMP_def END_TIMESTAMP_def UTC_def Truncate_Microsecond_def)
  have c: "fst (Get ex_env [3] (snd (Put ex_env (ex_item [3] 63082281600000010000) ex_tbl)))
       = Inl NotFound"
    using Put_then_Get [OF h(1) h(1) h(2), of "ex_item [3] 63082281600000010000"] m10
    by (auto simp: IsZero_def)
  have d: "fst (Get ex_env [3] (snd (Put ex_env (ex_item [3] 500) ex_tbl))) = Inl NotFound"
    using Put_then_Get [OF h(1) h(1) h(2), of "ex_item [3] 500"] m500 nz
    by auto
  show ?thesis using h r m30 m10 m500 nz z a b c d by simp
qed

text \<open>
  The claim as stated fails in two ways. An item whose expiry has nanoseconds below the
  microsecond (30 microseconds and 999 nanoseconds after 2000) is read back with the
  expiry truncated, which is not the item's Expires normalised to UTC. And an item whose
  expiry (5) is not later than the store's time (10) is written by Put, and the Get that
  follows does not find it.
\<close>

theorem Put_then_Get_counterexample:
  "fst (Get ex_env [5] (snd (Put ex_env (ex_item [5] 63082281600000030999) ex_tbl)))
     = Inr \<lparr>Key = [5], Value = [4],
            Expires = \<lparr>instant = 63082281600000030000, location = UTC_Location\<rparr>\<rparr>
   \<and> UTC (Expires (ex_item [5] 63082281600000030999))
       = \<lparr>instant = 63082281600000030999, location = UTC_Location\<rparr>
   \<and> (63082281600000030000 :: int) \<noteq> 63082281600000030999
   \<and> fst (Put ex_env (ex_item [5] 63082281600000005000) ex_tbl)
       = Inr (newLease (ex_item [5] 63082281600000005000))
   \<and> fst (Get ex_env [5] (snd (Put ex_env (ex_item [5] 63082281600000005000) ex_tbl)))
       = Inl NotFound"
  by (simp add: Put_def Get_def Retry_def RetryIdempotent_def pool_Exec_def
      pool_SendBatch_read_only_def sql_insert_on_conflict_update_def sql_select_def
      QueryRow_def item_row_def scan_item_def Timestamptz_Value_def Timestamptz_Scan_def
      timestamptz_Time_def time_Unix_def microsecSinceY2K_def Unix_def Nanosecond_def
      unixToInternal_def microsecFromUnixEpochToY2K_def IsZero_def UTC_def live_def)

subsection \<open>Reads leave the table alone\<close>

text \<open>
  C10. Get and GetRange return the table they were given, whatever the key or range,
  the state of the table and the outcome of the call.
\<close>

theorem Get_GetRange_read_only:
  "snd (Get e k tbl) = tbl
   \<and> snd (GetRange DefaultRangeLimit e startKey endKey limit0 tbl) = tbl"
  by (simp add: Get_def GetRange_def RetryIdempotent_def pool_SendBatch_read_only_def
      split: option.splits)

subsection \<open>GetRange\<close>

lemma distinct_map_sort_key: "distinct (map f (sort_key f xs)) = distinct (map f xs)"
  by (induction xs) (simp_all add: distinct_insort_key)

lemma strict_sorted_sort_key:
  "distinct (map f xs) \<Longrightarrow> sorted_wrt (<) (map f (sort_key f xs))"
  by (simp add: strict_sorted_iff distinct_map_sort_key)

lemma strict_sorted_take_prefix:
  assumes "sorted_wrt (<) (map f xs)" and "y \<in> set xs"
  shows "y \<in> set (take n xs) \<or> (length (take n xs) = n \<and> (\<forall>x \<in> set (take n xs). f x < f y))"
proof (cases "y \<in> set (take n xs)")
  case True
  then show ?thesis by simp
next
  case False
  have split: "xs = take n xs @ drop n xs" by simp
  then have "set xs = set (take n xs) \<union> set (drop n xs)"
    by (metis set_append)
  with assms(2) False have y: "y \<in> set (drop n xs)" by blast
  then have "drop n xs \<noteq> []" by auto
  then have len: "length (take n xs) = n" by simp
  have "sorted_wrt (<) (map f (take n xs) @ map f (drop n xs))"
    using assms(1) by (metis split map_append)
  then have "\<forall>a \<in> set (map f (take n xs)). \<forall>b \<in> set (map f (drop n xs)). a < b"
    by (simp add: sorted_wrt_append)
  then have "\<forall>x \<in> set (take n xs). f x < f y"
    using y by auto
  with len show ?thesis by simp
qed

lemma Key_scan_item [simp]: "Key (scan_item k r) = k"
  by (simp add: scan_item_def)

lemma GetRange_ok:
  "fault e = None \<Longrightarrow>
   GetRange d e startKey endKey limit0 tbl =
     (Inr \<lparr>Items = map (\<lambda>r. scan_item (kv_key r) r)
        (sql_select_order_limit (\<lambda>r. key_between startKey endKey r \<and> live (now e) r)
           (if limit0 \<le> 0 then d else limit0) tbl)\<rparr>, tbl)"
  by (simp add: GetRange_def RetryIdempotent_def pool_SendBatch_read_only_def)

text \<open>
  C4. When the query reaches the store, the table satisfies its primary key and the
  default limit is positive, GetRange returns a result, with the table untouched, such
  that, for the limit in force (\<open>limit\<close> itself when positive, the default otherwise):
  the items are at most that many; their keys are strictly ascending; every item is the
  key, value and expiry of a live row of the table with \<open>startKey \<le> key \<le> endKey\<close>;
  and every such row is among the items, unless the limit is reached and the row's key
  is greater than the key of every item returned.
\<close>

theorem GetRange_spec:
  assumes "fault e = None" and "kv_pkey tbl" and "0 < DefaultRangeLimit"
  shows "\<exists>items.
      GetRange DefaultRangeLimit e startKey endKey limit0 tbl = (Inr \<lparr>Items = items\<rparr>, tbl)
    \<and> int (length items) \<le> (if limit0 \<le> 0 then DefaultRangeLimit else limit0)
    \<and> sorted_wrt (<) (map Key items)
    \<and> (\<forall>it \<in> set items. \<exists>r \<in> set tbl.
          startKey \<le> kv_key r \<and> kv_key r \<le> endKey \<and> live (now e) r
          \<and> it = scan_item (kv_key r) r)
    \<and> (\<forall>r \<in> set tbl. startKey \<le> kv_key r \<and> kv_key r \<le> endKey \<and> live (now e) r \<longrightarrow>
          scan_item (kv_key r) r \<in> set items
          \<or> (int (length items) = (if limit0 \<le> 0 then DefaultRangeLimit else limit0)
              \<and> (\<forall>it \<in> set items. Key it < kv_key r)))"
proof -
  let ?lim = "if limit0 \<le> 0 then DefaultRangeLimit else limit0"
  let ?c = "\<lambda>r. key_between startKey endKey r \<and> live (now e) r"
  let ?rows = "sort_key kv_key (filter ?c tbl)"
  let ?sel = "take (nat ?lim) ?rows"
  let ?items = "map (\<lambda>r. scan_item (kv_key r) r) ?sel"
  have pos: "0 < ?lim" using assms(3) by simp
  have G: "GetRange DefaultRangeLimit e startKey endKey limit0 tbl = (Inr \<lparr>Items = ?items\<rparr>, tbl)"
    using assms(1) by (simp add: GetRange_ok sql_select_order_limit_def)
  have len: "int (length ?items) \<le> ?lim"
    using pos by simp
  have "distinct (map kv_key (filter ?c tbl))"
    using assms(2) by (simp add: kv_pkey_def distinct_map_filter)
  then have strict: "sorted_wrt (<) (map kv_key ?rows)"
    by (rule strict_sorted_sort_key)
  have keys: "map Key ?items = take (nat ?lim) (map kv_key ?rows)"
    by (simp add: take_map comp_def)
  have "sorted_wrt (<) (take (nat ?lim) (map kv_key ?rows))"
    using strict by (rule sorted_wrt_take)
  then have asc: "sorted_wrt (<) (map Key ?items)"
    by (simp only: keys)
  have sound: "\<forall>it \<in> set ?items. \<exists>r \<in> set tbl.
          startKey \<le> kv_key r \<and> kv_key r \<le> endKey \<and> live (now e) r
          \<and> it = scan_item (kv_key r) r"
  proof
    fix it assume "it \<in> set ?items"
    then obtain r where r: "r \<in> set ?sel" and it: "it = scan_item (kv_key r) r"
      by auto
    from r have "r \<in> set ?rows" by (rule in_set_takeD)
    then have "r \<in> set tbl \<and> ?c r" by simp
    then show "\<exists>r \<in> set tbl. startKey \<le> kv_key r \<and> kv_key r \<le> endKey \<and> live (now e) r
          \<and> it = scan_item (kv_key r) r"
      using it by (auto simp: key_between_def)
  qed
  have complete: "\<forall>r \<in> set tbl. startKey \<le> kv_key r \<and> kv_key r \<le> endKey \<and> live (now e) r \<longrightarrow>
          scan_item (kv_key r) r \<in> set ?items
          \<or> (int (length ?items) = ?lim \<and> (\<forall>it \<in> set ?items. Key it < kv_key r))"
  proof (intro ballI impI)
    fix r assume r: "r \<in> set tbl"
      and c: "startKey \<le> kv_key r \<and> kv_key r \<le> endKey \<and> live (now e) r"
    then have "r \<in> set ?rows" by (simp add: key_between_def)
    from strict_sorted_take_prefix [OF strict this, of "nat ?lim"]
    consider "r \<in> set ?sel"
      | "length ?sel = nat ?lim" and "\<forall>x \<in> set ?sel. kv_key x < kv_key r"
      by blast
    then show "scan_item (kv_key r) r \<in> set ?items
          \<or> (int (length ?items) = ?lim \<and> (\<forall>it \<in> set ?items. Key it < kv_key r))"
    proof cases
      case 1
      then have "scan_item (kv_key r) r \<in> set ?items" by (simp only: set_map) (rule imageI)
      then show ?thesis ..
    next
      case 2
      have "int (length ?items) = ?lim"
        using 2(1) pos by simp
      moreover have "\<forall>it \<in> set ?items. Key it < kv_key r"
        using 2(2) by auto
      ultimately show ?thesis by blast
    qed
  qed
  show ?thesis
    apply (rule exI [of _ ?items])
    apply (intro conjI)
        apply (rule G)
       apply (rule len)
      apply (rule asc)
     apply (rule sound)
    apply (rule complete)
    done
qed

theorem GetRange_spec_witness:
  "fault ex_env = None \<and> kv_pkey ex_tbl \<and> (0::int) < 1000
   \<and> GetRange 1000 ex_env [1] [3] 0
        [\<lparr>kv_key = [3], kv_value = [7], kv_expires = Some 20, kv_revision = 3\<rparr>,
         \<lparr>kv_key = [2], kv_value = [8], kv_expires = Some 5, kv_revision = 2\<rparr>,
         \<lparr>kv_key = [1], kv_value = [9], kv_expires = None, kv_revision = 1\<rparr>,
         \<lparr>kv_key = [4], kv_value = [6], kv_expires = None, kv_revision = 4\<rparr>]
      = (Inr \<lparr>Items =
           [\<lparr>Key = [1], Value = [9], Expires = \<lparr>instant = 0, location = UTC_Location\<rparr>\<rparr>,
            \<lparr>Key = [3], Value = [7],
             Expires = \<lparr>instant = 63082281600000020000, location = UTC_Location\<rparr>\<rparr>]\<rparr>,
         [\<lparr>kv_key = [3], kv_value = [7], kv_expires = Some 20, kv_revision = 3\<rparr>,
          \<lparr>kv_key = [2], kv_value = [8], kv_expires = Some 5, kv_revision = 2\<rparr>,
          \<lparr>kv_key = [1], kv_value = [9], kv_expires = None, kv_revision = 1\<rparr>,
          \<lparr>kv_key = [4], kv_value = [6], kv_expires = None, kv_revision = 4\<rparr>])
   \<and> (\<exists>items. GetRange 1000 ex_env [1] [3] 1 ex_tbl = (Inr \<lparr>Items = items\<rparr>, ex_tbl)
         \<and> int (length items) \<le> 1 \<and> sorted_wrt (<) (map Key items))"
proof -
  have a: "GetRange 1000 ex_env [1] [3] 0
        [\<lparr>kv_key = [3], kv_value = [7], kv_expires = Some 20, kv_revision = 3\<rparr>,
         \<lparr>kv_key = [2], kv_value = [8], kv_expires = Some 5, kv_revision = 2\<rparr>,
         \<lparr>kv_key = [1], kv_value = [9], kv_expires = None, kv_revision = 1\<rparr>,
         \<lparr>kv_key = [4], kv_value = [6], kv_expires = None, kv_revision = 4\<rparr>]
      = (Inr \<lparr>Items =
           [\<lparr>Key = [1], Value = [9], Expires = \<lparr>instant = 0, location = UTC_Location\<rparr>\<rparr>,
            \<lparr>Key = [3], Value = [7],
             Expires = \<lparr>instant = 63082281600000020000, location = UTC_Location\<rparr>\<rparr>]\<rparr>,
         [\<lparr>kv_key = [3], kv_value = [7], kv_expires = Some 20, kv_revision = 3\<rparr>,
          \<lparr>kv_key = [2], kv_value = [8], kv_expires = Some 5, kv_revision = 2\<rparr>,
          \<lparr>kv_key = [1], kv_value = [9], kv_expires = None, kv_revision = 1\<rparr>,
          \<lparr>kv_key = [4], kv_value = [6], kv_expires = None, kv_revision = 4\<rparr>])"
    by (simp add: GetRange_ok sql_select_order_limit_def key_between_def live_def scan_item_def
        Timestamptz_Scan_def timestamptz_Time_def time_Unix_def unixToInternal_def
        microsecFromUnixEpochToY2K_def UTC_def zero_Time_def)
  have pk: "kv_pkey ex_tbl" by (simp add: kv_pkey_def)
  have b: "\<exists>items. GetRange 1000 ex_env [1] [3] 1 ex_tbl = (Inr \<lparr>Items = items\<rparr>, ex_tbl)
         \<and> int (length items) \<le> 1 \<and> sorted_wrt (<) (map Key items)"
    using GetRange_spec [of ex_env ex_tbl 1000 "[1]" "[3]" 1] pk by auto
  show ?thesis using a pk b by simp
qed

subsection \<open>Revisions\<close>










lemma live_restamp [simp]: "live t (r\<lparr>kv_revision := u\<rparr>) = live t r"
  by (simp add: live_def)

lemma key_between_restamp [simp]: "key_between a b (r\<lparr>kv_revision := u\<rparr>) = key_between a b r"
  by (simp add: key_between_def)

lemma scan_item_restamp [simp]: "scan_item k (r\<lparr>kv_revision := u\<rparr>) = scan_item k r"
  by (simp add: scan_item_def)







subsection \<open>Configuration\<close>

lemma CheckAndSetDefaults_steps:
  fixes d :: int and c :: Config
  assumes "AuthMode c = StaticAuth \<or> AuthMode c = AzureADAuth"
    and "\<not> ChangeFeedPollInterval c < 0"
  defines "c1 \<equiv> c\<lparr>ChangeFeedPollInterval :=
      (if ChangeFeedPollInterval c = 0 then d else ChangeFeedPollInterval c)\<rparr>"
  defines "c2 \<equiv> c1\<lparr>ChangeFeedBatchSize :=
      (if ChangeFeedBatchSize c = 0 then 1000 else ChangeFeedBatchSize c)\<rparr>"
  defines "c3 \<equiv> c2\<lparr>ExpiryInterval :=
      (if ExpiryInterval c = 0 then 30 * 1000000000 else ExpiryInterval c)\<rparr>"
  defines "c4 \<equiv> c3\<lparr>ExpiryBatchSize :=
      (if ExpiryBatchSize c = 0 then 1000 else ExpiryBatchSize c)\<rparr>"
  shows "CheckAndSetDefaults d c =
     (if ChangeFeedBatchSize c < 0 then (Some BadParameter, c1)
      else if ExpiryInterval c < 0 then (Some BadParameter, c2)
      else if ExpiryBatchSize c < 0 then (Some BadParameter, c3)
      else (None, c4))"
proof -
  have A: "AuthMode_Check (AuthMode c) = None"
    using assms(1) by (simp add: AuthMode_Check_def)
  have e1: "(if ChangeFeedPollInterval c = 0 then c\<lparr>ChangeFeedPollInterval := d\<rparr> else c) = c1"
    by (simp add: c1_def)
  have s1: "ChangeFeedBatchSize c1 = ChangeFeedBatchSize c"
    by (simp add: c1_def)
  have e2: "(if ChangeFeedBatchSize c = 0
      then c1\<lparr>ChangeFeedBatchSize := defaultChangeFeedBatchSize\<rparr> else c1) = c2"
    by (simp add: c2_def s1 defaultChangeFeedBatchSize_def)
  have s2: "ExpiryInterval c2 = ExpiryInterval c"
    by (simp add: c2_def c1_def)
  have e3: "(if ExpiryInterval c = 0 then c2\<lparr>ExpiryInterval := defaultExpiryInterval\<rparr> else c2) = c3"
    by (simp add: c3_def s2 defaultExpiryInterval_def Second_def)
  have s3: "ExpiryBatchSize c3 = ExpiryBatchSize c"
    by (simp add: c3_def c2_def c1_def)
  have e4: "(if ExpiryBatchSize c = 0
      then c3\<lparr>ExpiryBatchSize := defaultExpiryBatchSize\<rparr> else c3) = c4"
    by (simp add: c4_def s3 defaultExpiryBatchSize_def)
  show ?thesis
    unfolding CheckAndSetDefaults_def Let_def
    by (simp only: A option.case assms(2) if_False e1 s1 e2 s2 e3 s3 e4)
qed

text \<open>
  C7, as the code has it. Validation fails, always with BadParameter, exactly when the
  authentication mode is neither static nor Azure or one of the four numbers is
  negative. When it succeeds, each of the four that was zero holds its default (the
  change-feed interval the backend's default poll period, both batch sizes 1000, the
  expiry interval 30 seconds), every non-zero one is kept and the other fields are
  unchanged.
\<close>

theorem CheckAndSetDefaults_spec:
  "fst (CheckAndSetDefaults d c) =
     (if (AuthMode c \<noteq> StaticAuth \<and> AuthMode c \<noteq> AzureADAuth)
         \<or> ChangeFeedPollInterval c < 0 \<or> ChangeFeedBatchSize c < 0
         \<or> ExpiryInterval c < 0 \<or> ExpiryBatchSize c < 0
      then Some BadParameter else None)
   \<and> (fst (CheckAndSetDefaults d c) = None \<longrightarrow>
        snd (CheckAndSetDefaults d c) =
          c\<lparr>ChangeFeedPollInterval :=
               (if ChangeFeedPollInterval c = 0 then d else ChangeFeedPollInterval c),
            ChangeFeedBatchSize :=
               (if ChangeFeedBatchSize c = 0 then 1000 else ChangeFeedBatchSize c),
            ExpiryInterval :=
               (if ExpiryInterval c = 0 then 30 * 1000000000 else ExpiryInterval c),
            ExpiryBatchSize :=
               (if ExpiryBatchSize c = 0 then 1000 else ExpiryBatchSize c)\<rparr>)"
proof -
  let ?auth = "AuthMode c = StaticAuth \<or> AuthMode c = AzureADAuth"
  consider (auth) "\<not> ?auth" | (poll) "?auth" "ChangeFeedPollInterval c < 0"
    | (rest) "?auth" "\<not> ChangeFeedPollInterval c < 0"
    by blast
  then show ?thesis
  proof cases
    case auth
    then show ?thesis
      by (simp add: CheckAndSetDefaults_def AuthMode_Check_def)
  next
    case poll
    then show ?thesis
      by (simp add: CheckAndSetDefaults_def AuthMode_Check_def)
  next
    case rest
    show ?thesis
      using rest by (simp only: CheckAndSetDefaults_steps [OF rest]) simp
  qed
qed

theorem CheckAndSetDefaults_spec_witness:
  "CheckAndSetDefaults 1000000000
     \<lparr>ConnString = ''postgres://db'', AuthMode = ''azure'', ChangeFeedPollInterval = 0,
      ChangeFeedBatchSize = 50, DisableExpiry = False, ExpiryInterval = 0,
      ExpiryBatchSize = 0\<rparr>
   = (None,
     \<lparr>ConnString = ''postgres://db'', AuthMode = ''azure'',
      ChangeFeedPollInterval = 1000000000, ChangeFeedBatchSize = 50, DisableExpiry = False,
      ExpiryInterval = 30000000000, ExpiryBatchSize = 1000\<rparr>)
   \<and> fst (CheckAndSetDefaults 1000000000
     \<lparr>ConnString = ''postgres://db'', AuthMode = '''', ChangeFeedPollInterval = 0,
      ChangeFeedBatchSize = 50, DisableExpiry = False, ExpiryInterval = - 1,
      ExpiryBatchSize = 0\<rparr>) = Some BadParameter"
proof -
  let ?c = "\<lparr>ConnString = ''postgres://db'', AuthMode = ''azure'', ChangeFeedPollInterval = 0,
      ChangeFeedBatchSize = 50, DisableExpiry = False, ExpiryInterval = 0,
      ExpiryBatchSize = 0\<rparr>"
  let ?b = "\<lparr>ConnString = ''postgres://db'', AuthMode = '''', ChangeFeedPollInterval = 0,
      ChangeFeedBatchSize = 50, DisableExpiry = False, ExpiryInterval = - 1,
      ExpiryBatchSize = 0\<rparr>"
  have "fst (CheckAndSetDefaults 1000000000 ?c) = None"
    and "snd (CheckAndSetDefaults 1000000000 ?c) =
     \<lparr>ConnString = ''postgres://db'', AuthMode = ''azure'',
      ChangeFeedPollInterval = 1000000000, ChangeFeedBatchSize = 50, DisableExpiry = False,
      ExpiryInterval = 30000000000, ExpiryBatchSize = 1000\<rparr>"
    and "fst (CheckAndSetDefaults 1000000000 ?b) = Some BadParameter"
    using CheckAndSetDefaults_spec [of 1000000000 ?c]
      CheckAndSetDefaults_spec [of 1000000000 ?b]
    by (simp_all add: StaticAuth_def AzureADAuth_def)
  then show ?thesis by (metis prod.collapse)
qed

text \<open>
  The claim as stated fails: with an authentication mode that is neither static nor
  Azure, validation fails with BadParameter although none of the four numbers is
  negative.
\<close>

theorem CheckAndSetDefaults_counterexample:
  "fst (CheckAndSetDefaults 1000000000 ex_cfg_ldap) = Some BadParameter
   \<and> \<not> ChangeFeedPollInterval ex_cfg_ldap < 0 \<and> \<not> ChangeFeedBatchSize ex_cfg_ldap < 0
   \<and> \<not> ExpiryInterval ex_cfg_ldap < 0 \<and> \<not> ExpiryBatchSize ex_cfg_ldap < 0"
  by (simp add: CheckAndSetDefaults_def AuthMode_Check_def StaticAuth_def AzureADAuth_def)

subsection \<open>Close\<close>

text \<open>
  C9. Close returns, with no error, from every state of the backend, and what it did is,
  in this order: cancel the root context, wait for the background loops (none is running
  when the wait completes), close the watch buffer, close the pool, the last two with no
  background loop running.
\<close>

theorem Close_order:
  "\<exists>b'. Close b = Some (None, b')
      \<and> teardown b' = teardown b @
          [(CancelContext, wg b), (WaitLoops, 0), (CloseBuffer, 0), (ClosePool, 0)]
      \<and> ctx_cancelled b' \<and> wg b' = 0 \<and> buf_closed b' \<and> pool_closed b'"
  by (simp add: Close_def cancel_def wg_Wait_def buf_Close_def pool_Close_def)

end
